theory Spec2Isabelle
  imports Main "HOL-Library.Word" "HOL-Library.Signed_Division"
    "HOL-Library.Code_Target_Numeral"
begin

unbundle bit_operations_syntax

section \<open>PCM WAV and Wave64 audio provider (src/audio_provider_pcm.cpp)\<close>

text \<open>
  A shallow embedding of \<^verbatim>\<open>audio_provider_pcm.cpp\<close>. Machine integers are words
  and wrap around: \<^verbatim>\<open>int64_t\<close> and \<^verbatim>\<open>uint64_t\<close> are \<open>64 word\<close>, \<^verbatim>\<open>int\<close> and
  \<^verbatim>\<open>uint32_t\<close> are \<open>32 word\<close>, \<^verbatim>\<open>uint16_t\<close> is \<open>16 word\<close>; a signed
  comparison is \<open>\<le>s\<close> or \<open><s\<close>, a signed division is \<open>sdiv64\<close>, an unsigned one is
  \<open>div\<close>, and a conversion between widths is \<open>ucast\<close> (zero extension) or \<open>scast\<close>
  (sign extension). An exception is a value \<open>Inl e\<close>, and \<open>Inl (e, s)\<close> with the state
  \<open>s\<close> at the \<^verbatim>\<open>throw\<close> where the object outlives the exception (the member functions
  \<^verbatim>\<open>EnsureRangeAccessible\<close> and \<^verbatim>\<open>FillBuffer\<close>); the two events on which C++ gives
  no result at all (an integer division by zero, a read or write through a pointer that
  does not point into live memory) are the errors \<open>DivisionByZero\<close> and
  \<open>InvalidMemoryAccess\<close>. The file is the list of its bytes.
\<close>

type_synonym byte = "8 word"
type_synonym uint16 = "16 word"
type_synonym uint32 = "32 word"
type_synonym cint = "32 word"
type_synonym uint64 = "64 word"
type_synonym int64 = "64 word"

datatype error =
    AudioDataNotFoundError string
  | AudioProviderOpenError string
  | AudioDecodeError string
  | DivisionByZero
  | InvalidMemoryAccess

text \<open>
  What the build and the operating system decide: \<^verbatim>\<open>sizeof(size_t)\<close>, whether
  \<^verbatim>\<open>boost::interprocess::mapped_region\<close> throws for a view at the given offset and
  size, and the values that the members \<^verbatim>\<open>sample_rate\<close>, \<^verbatim>\<open>channels\<close>,
  \<^verbatim>\<open>bytes_per_sample\<close> and \<^verbatim>\<open>num_samples\<close> of the base class \<^verbatim>\<open>AudioProvider\<close> hold
  before the constructors of this file assign them.
\<close>

record env =
  size_t_bytes :: nat
  map_fails :: "int64 \<Rightarrow> uint64 \<Rightarrow> bool"
  uninit_sample_rate :: cint
  uninit_channels :: cint
  uninit_bytes_per_sample :: cint
  uninit_num_samples :: int64

record IndexPoint =
  start_byte :: int64
  start_sample :: int64
  num_samples :: int64

text \<open>
  The provider object. \<open>file_bytes\<close> is the content behind \<^verbatim>\<open>agi::file_mapping\<close>;
  \<open>region\<close> is the size of the live \<^verbatim>\<open>mapped_region\<close> (\<open>None\<close> for the null pointer),
  which starts at file offset \<open>mapping_start\<close>; \<open>mappings_made\<close> counts the
  \<^verbatim>\<open>mapped_region\<close> objects constructed so far, so that a pointer into an earlier
  region can be told from one into the live region.
\<close>

record provider =
  file_bytes :: "byte list"
  file_size :: int64
  float_samples :: bool
  sample_rate :: cint
  channels :: cint
  bytes_per_sample :: cint
  prov_num_samples :: int64
  index_points :: "IndexPoint list"
  mapping_start :: int64
  region :: "uint64 option"
  mappings_made :: nat

text \<open>A \<^verbatim>\<open>char *\<close> into a mapped region: the region it was made for and the file
  offset of the byte it points to.\<close>

record pointer =
  p_region :: nat
  p_offset :: int

definition PCMAudioProvider :: "env \<Rightarrow> byte list \<Rightarrow> provider" where
  "PCMAudioProvider E f =
     \<lparr> file_bytes = f, file_size = of_nat (length f), float_samples = False,
       sample_rate = uninit_sample_rate E, channels = uninit_channels E,
       bytes_per_sample = uninit_bytes_per_sample E,
       prov_num_samples = uninit_num_samples E,
       index_points = [], mapping_start = 0, region = None, mappings_made = 0 \<rparr>"

text \<open>A conversion to \<^verbatim>\<open>size_t\<close>, which has 32 bits where \<^verbatim>\<open>sizeof(size_t) == 4\<close>
  and 64 bits otherwise.\<close>

definition to_size_t :: "env \<Rightarrow> uint64 \<Rightarrow> uint64" where
  "to_size_t E x = (if size_t_bytes E = 4 then ucast (ucast x :: uint32) else x)"

text \<open>
  The constructor of \<^verbatim>\<open>mapped_region\<close> for a view of \<open>len\<close> bytes at \<open>off\<close>: a size of
  zero asks for the rest of the file. The result is the size of the region.
\<close>

definition mapped_region :: "env \<Rightarrow> provider \<Rightarrow> int64 \<Rightarrow> uint64 \<Rightarrow> uint64 option" where
  "mapped_region E p off len =
     (if map_fails E off len then None
      else Some (if len = 0 then to_size_t E (file_size p - off) else len))"

text \<open>The comparison \<^verbatim>\<open>start + length <= mapping_start + region->get_size()\<close>: the right
  side has type \<^verbatim>\<open>size_t\<close> where that has 64 bits, and the comparison is unsigned; with
  a 32-bit \<^verbatim>\<open>size_t\<close> both sides are \<^verbatim>\<open>int64_t\<close>.\<close>

definition within_region :: "env \<Rightarrow> int64 \<Rightarrow> int64 \<Rightarrow> bool" where
  "within_region E a b = (if size_t_bytes E = 4 then a \<le>s b else a \<le> b)"

text \<open>
  \<^verbatim>\<open>EnsureRangeAccessible\<close>. An exception leaves the object as it is at the
  \<^verbatim>\<open>throw\<close>, which is the second component of \<open>Inl\<close>: \<^verbatim>\<open>mapping_start\<close> is assigned
  before the region is made, so a mapping that fails leaves the earlier region (or none)
  under the new \<^verbatim>\<open>mapping_start\<close>.
\<close>

definition EnsureRangeAccessible ::
  "env \<Rightarrow> provider \<Rightarrow> int64 \<Rightarrow> int64 \<Rightarrow> (error \<times> provider) + (provider \<times> pointer)" where
  "EnsureRangeAccessible E p start len =
     (if file_size p <s start + len
      then Inl (AudioDecodeError ''Attempted to map beyond end of file'', p)
      else if (case region p of None \<Rightarrow> False
               | Some sz \<Rightarrow> mapping_start p \<le>s start
                         \<and> within_region E (start + len) (mapping_start p + sz))
      then Inr (p, \<lparr> p_region = mappings_made p, p_offset = sint start \<rparr>)
      else
        let (ms, len') =
              (if size_t_bytes E = 4 then
                 let ms = start AND NOT 0xFFFFF;
                     l1 = len + ucast (ucast (start - ms) :: uint32);
                     l2 = min (max (0x1000000 :: uint32)
                                   (ucast ((l1 + 0xFFFFF) AND NOT 0xFFFFF)))
                              (ucast (file_size p - ms))
                 in (ms, ucast l2)
               else (0, file_size p));
            p1 = p \<lparr> mapping_start := ms \<rparr>
        in (case mapped_region E p1 ms len' of
              None \<Rightarrow> Inl (AudioDecodeError ''Failed mapping a view of the file'', p1)
            | Some sz \<Rightarrow>
                let p' = p1 \<lparr> region := Some sz, mappings_made := Suc (mappings_made p1) \<rparr>
                in Inr (p', \<lparr> p_region = mappings_made p', p_offset = sint start \<rparr>)))"

text \<open>An exception that leaves a constructor destroys the object under construction:
  the error is all that remains of the call.\<close>

definition thrown :: "(error \<times> provider) + 'a \<Rightarrow> error + 'a" where
  "thrown r = (case r of Inl (e, p) \<Rightarrow> Inl e | Inr x \<Rightarrow> Inr x)"

text \<open>
  Reading \<open>n\<close> bytes at \<open>ptr + k\<close>. The read is defined when the pointer was made for the
  live region and the bytes lie inside that region and inside the file.
\<close>

definition deref :: "provider \<Rightarrow> pointer \<Rightarrow> nat \<Rightarrow> nat \<Rightarrow> error + byte list" where
  "deref p ptr k n =
     (case region p of
        None \<Rightarrow> Inl InvalidMemoryAccess
      | Some sz \<Rightarrow>
          if p_region ptr = mappings_made p
             \<and> 0 \<le> p_offset ptr
             \<and> sint (mapping_start p) \<le> p_offset ptr
             \<and> p_offset ptr + int k + int n \<le> sint (mapping_start p) + uint sz
             \<and> p_offset ptr + int k + int n \<le> int (length (file_bytes p))
          then Inr (take n (drop (nat (p_offset ptr) + k) (file_bytes p)))
          else Inl InvalidMemoryAccess)"

text \<open>Little-endian integers, as the structure overlays read them on the supported
  (little-endian) targets.\<close>

fun le_int :: "byte list \<Rightarrow> int" where
  "le_int [] = 0"
| "le_int (b # bs) = uint b + 256 * le_int bs"

definition le16 :: "byte list \<Rightarrow> uint16" where "le16 bs = word_of_int (le_int bs)"
definition le32 :: "byte list \<Rightarrow> uint32" where "le32 bs = word_of_int (le_int bs)"
definition le64 :: "byte list \<Rightarrow> uint64" where "le64 bs = word_of_int (le_int bs)"

definition bytes_of :: "string \<Rightarrow> byte list" where
  "bytes_of s = map (\<lambda>c. of_nat (of_char c)) s"


subsection \<open>Helpers\<close>

definition and_then :: "error + 'a \<Rightarrow> ('a \<Rightarrow> error + 'b) \<Rightarrow> error + 'b" where
  "and_then m f = (case m of Inl e \<Rightarrow> Inl e | Inr x \<Rightarrow> f x)"

text \<open>C++ division of signed integers truncates towards zero.\<close>

definition sdiv32 :: "cint \<Rightarrow> cint \<Rightarrow> cint" where
  "sdiv32 a b = word_of_int (sint a sdiv sint b)"

definition sdiv64 :: "int64 \<Rightarrow> int64 \<Rightarrow> int64" where
  "sdiv64 a b = word_of_int (sint a sdiv sint b)"

subsection \<open>RIFF WAV\<close>

definition CheckFourcc :: "byte list \<Rightarrow> byte list \<Rightarrow> bool" where
  "CheckFourcc str1 str2 =
     (str1 ! 0 = str2 ! 0 \<and> str1 ! 1 = str2 ! 1 \<and> str1 ! 2 = str2 ! 2 \<and> str1 ! 3 = str2 ! 3)"

text \<open>The local variables of the constructor that the chunk loop changes, with the
  object under construction.\<close>

record riff_state =
  rs_prov :: provider
  rs_data_left :: uint32
  rs_filepos :: uint32
  rs_got_fmt_header :: bool

text \<open>The body of \<^verbatim>\<open>while (data_left)\<close>. \<^verbatim>\<open>ChunkHeader\<close> is 8 bytes (type at 0, size at
  4); \<^verbatim>\<open>fmtChunk\<close> is 16 bytes (compression at 0, channels at 2, samplerate at 4,
  significant_bits_sample at 14).\<close>

definition riff_fmt_chunk :: "env \<Rightarrow> provider \<Rightarrow> uint32 \<Rightarrow> bool \<Rightarrow> error + (provider \<times> bool)" where
  "riff_fmt_chunk E p filepos got_fmt_header =
     (if got_fmt_header
      then Inl (AudioProviderOpenError ''Invalid file, multiple 'fmt ' chunks'')
      else
        and_then (thrown (EnsureRangeAccessible E p (ucast filepos) 16)) (\<lambda>(p2, fmt).
        and_then (deref p2 fmt 0 2) (\<lambda>compression.
        if le16 compression \<noteq> 1
        then Inl (AudioProviderOpenError ''Can't use file, not PCM encoding'')
        else
          and_then (deref p2 fmt 4 4) (\<lambda>samplerate.
          and_then (deref p2 fmt 2 2) (\<lambda>chans.
          and_then (deref p2 fmt 14 2) (\<lambda>significant_bits_sample.
          Inr (p2 \<lparr> sample_rate := le32 samplerate,
                    channels := ucast (le16 chans),
                    bytes_per_sample :=
                      sdiv32 (ucast (le16 significant_bits_sample) + 7) 8 \<rparr>,
               True)))))))"

definition riff_data_chunk ::
  "provider \<Rightarrow> pointer \<Rightarrow> uint32 \<Rightarrow> bool \<Rightarrow> error + (provider \<times> bool)" where
  "riff_data_chunk p ch filepos got_fmt_header =
     (if \<not> got_fmt_header
      then Inl (AudioProviderOpenError
                 ''Found 'data' chunk before 'fmt ' chunk, file is invalid.'')
      else
        and_then (deref p ch 4 4) (\<lambda>ch_size.
        if bytes_per_sample p = 0 then Inl DivisionByZero
        else
          let samples = (ucast (le32 ch_size div bytes_per_sample p) :: int64) in
          if channels p = 0 then Inl DivisionByZero
          else
            let frames = sdiv64 samples (scast (channels p));
                ip = \<lparr> start_byte = ucast filepos,
                       start_sample = prov_num_samples p,
                       num_samples = frames \<rparr>
            in Inr (p \<lparr> index_points := index_points p @ [ip],
                        prov_num_samples := prov_num_samples p + frames \<rparr>,
                    got_fmt_header)))"

definition riff_chunk :: "env \<Rightarrow> riff_state \<Rightarrow> error + riff_state" where
  "riff_chunk E s =
     and_then (thrown (EnsureRangeAccessible E (rs_prov s) (ucast (rs_filepos s)) 8))
       (\<lambda>(p1, ch).
     let data_left = rs_data_left s - 8;
         filepos = rs_filepos s + 8
     in
     and_then (deref p1 ch 0 4) (\<lambda>type.
     and_then
       (if CheckFourcc type (bytes_of ''fmt '')
        then riff_fmt_chunk E p1 filepos (rs_got_fmt_header s)
        else if CheckFourcc type (bytes_of ''data'')
        then riff_data_chunk p1 ch filepos (rs_got_fmt_header s)
        else Inr (p1, rs_got_fmt_header s))
       (\<lambda>(p3, got).
     and_then (deref p3 ch 4 4) (\<lambda>ch_size.
     let adv = (le32 ch_size + 1) AND NOT 1
     in Inr \<lparr> rs_prov = p3, rs_data_left = data_left - adv,
              rs_filepos = filepos + adv, rs_got_fmt_header = got \<rparr>))))"

text \<open>The loop \<^verbatim>\<open>while (data_left) { ... }\<close>. \<open>None\<close> is a loop that does not end. The
  vector of index points has room for every point: memory that runs out is not part of
  the model.\<close>

partial_function (option) riff_loop :: "env \<Rightarrow> riff_state \<Rightarrow> (error + provider) option" where
  "riff_loop E s =
     (if rs_data_left s = 0 then Some (Inr (rs_prov s))
      else case riff_chunk E s of
             Inl e \<Rightarrow> Some (Inl e)
           | Inr s' \<Rightarrow> riff_loop E s')"

declare riff_loop.simps [code]

text \<open>The constructor up to the loop. \<^verbatim>\<open>RIFFChunk\<close> is 12 bytes: type at 0, size at 4,
  format at 8.\<close>

definition riff_header :: "env \<Rightarrow> byte list \<Rightarrow> error + riff_state" where
  "riff_header E f =
     and_then (thrown (EnsureRangeAccessible E (PCMAudioProvider E f) 0 12))
       (\<lambda>(p, filestart).
     and_then (deref p filestart 0 4) (\<lambda>type.
     if \<not> CheckFourcc type (bytes_of ''RIFF'')
     then Inl (AudioDataNotFoundError ''File is not a RIFF file'')
     else
       and_then (deref p filestart 8 4) (\<lambda>format.
       if \<not> CheckFourcc format (bytes_of ''WAVE'')
       then Inl (AudioDataNotFoundError ''File is not a RIFF WAV file'')
       else
         and_then (deref p filestart 4 4) (\<lambda>ch_size.
         Inr \<lparr> rs_prov = p \<lparr> prov_num_samples := 0 \<rparr>,
                rs_data_left = le32 ch_size - 4,
                rs_filepos = 12,
                rs_got_fmt_header = False \<rparr>))))"

definition RiffWavPCMAudioProvider :: "env \<Rightarrow> byte list \<Rightarrow> (error + provider) option" where
  "RiffWavPCMAudioProvider E f =
     (case riff_header E f of
        Inl e \<Rightarrow> Some (Inl e)
      | Inr s \<Rightarrow> riff_loop E s)"

subsection \<open>Wave64\<close>

definition w64GuidRIFF :: "byte list" where
  "w64GuidRIFF = [0x72, 0x69, 0x66, 0x66, 0x2E, 0x91, 0xCF, 0x11,
                  0xA5, 0xD6, 0x28, 0xDB, 0x04, 0xC1, 0x00, 0x00]"

definition w64GuidWAVE :: "byte list" where
  "w64GuidWAVE = [0x77, 0x61, 0x76, 0x65, 0xF3, 0xAC, 0xD3, 0x11,
                  0x8C, 0xD1, 0x00, 0xC0, 0x4F, 0x8E, 0xDB, 0x8A]"

definition w64Guidfmt :: "byte list" where
  "w64Guidfmt = [0x66, 0x6D, 0x74, 0x20, 0xF3, 0xAC, 0xD3, 0x11,
                 0x8C, 0xD1, 0x00, 0xC0, 0x4F, 0x8E, 0xDB, 0x8A]"

definition w64Guiddata :: "byte list" where
  "w64Guiddata = [0x64, 0x61, 0x74, 0x61, 0xF3, 0xAC, 0xD3, 0x11,
                  0x8C, 0xD1, 0x00, 0xC0, 0x4F, 0x8E, 0xDB, 0x8A]"

text \<open>\<^verbatim>\<open>memcmp(guid1, guid2, 16) == 0\<close>.\<close>

definition CheckGuid :: "byte list \<Rightarrow> byte list \<Rightarrow> bool" where
  "CheckGuid guid1 guid2 = (take 16 guid1 = take 16 guid2)"

text \<open>
  The sizes of the structures, with every member at its natural alignment:
  \<^verbatim>\<open>RiffChunk\<close> is 16 + 8 + 16 bytes; \<^verbatim>\<open>WaveFormatEx\<close> is 18 bytes of members in a
  structure aligned to 4, so 20; \<^verbatim>\<open>FormatChunk\<close> is 16 + 8 + 20 + 6 bytes in a
  structure aligned to 8, so 56, with \<^verbatim>\<open>format\<close> at 24 (wFormatTag at 24, nChannels at
  26, nSamplesPerSec at 28, wBitsPerSample at 38); \<^verbatim>\<open>DataChunk\<close> is 16 + 8 bytes.
  These are the sizes where \<^verbatim>\<open>uint64_t\<close> is aligned to 8; an ABI that aligns it to 4
  makes \<^verbatim>\<open>FormatChunk\<close> 52 bytes.
\<close>

definition sizeof_RiffChunk :: int64 where "sizeof_RiffChunk = 40"
definition sizeof_FormatChunk :: int64 where "sizeof_FormatChunk = 56"
definition sizeof_DataChunk :: int64 where "sizeof_DataChunk = 24"

definition smallest_possible_file :: int64 where
  "smallest_possible_file = sizeof_RiffChunk + sizeof_FormatChunk + sizeof_DataChunk"

record w64_state =
  ws_prov :: provider
  ws_data_left :: uint64
  ws_filepos :: uint64
  ws_got_fmt_header :: bool

definition w64_fmt_chunk :: "env \<Rightarrow> provider \<Rightarrow> uint64 \<Rightarrow> bool \<Rightarrow> error + (provider \<times> bool)" where
  "w64_fmt_chunk E p filepos got_fmt_header =
     (if got_fmt_header
      then Inl (AudioProviderOpenError ''Bad file, found more than one 'fmt' chunk'')
      else
        and_then (thrown (EnsureRangeAccessible E p filepos sizeof_FormatChunk))
          (\<lambda>(p2, fmt).
        and_then (deref p2 fmt 24 2) (\<lambda>wFormatTag.
        if le16 wFormatTag = 3
        then Inl (AudioProviderOpenError
          ''File is IEEE 32 bit float format which isn't supported. Bug the developers if this matters.'')
        else if le16 wFormatTag \<noteq> 1
        then Inl (AudioProviderOpenError ''Can't use file, not PCM encoding'')
        else
          and_then (deref p2 fmt 28 4) (\<lambda>nSamplesPerSec.
          and_then (deref p2 fmt 26 2) (\<lambda>nChannels.
          and_then (deref p2 fmt 38 2) (\<lambda>wBitsPerSample.
          Inr (p2 \<lparr> sample_rate := le32 nSamplesPerSec,
                    channels := ucast (le16 nChannels),
                    bytes_per_sample := sdiv32 (ucast (le16 wBitsPerSample) + 7) 8 \<rparr>,
               True)))))))"

definition w64_data_chunk ::
  "provider \<Rightarrow> uint64 \<Rightarrow> uint64 \<Rightarrow> bool \<Rightarrow> error + (provider \<times> bool)" where
  "w64_data_chunk p filepos chunk_size got_fmt_header =
     (if \<not> got_fmt_header
      then Inl (AudioProviderOpenError
                 ''Found 'data' chunk before 'fmt ' chunk, file is invalid.'')
      else if bytes_per_sample p = 0 then Inl DivisionByZero
      else
        let samples = (chunk_size div scast (bytes_per_sample p) :: int64) in
        if channels p = 0 then Inl DivisionByZero
        else
          let frames = sdiv64 samples (scast (channels p));
              ip = \<lparr> start_byte = filepos,
                     start_sample = prov_num_samples p,
                     num_samples = frames \<rparr>
          in Inr (p \<lparr> index_points := index_points p @ [ip],
                      prov_num_samples := prov_num_samples p + frames \<rparr>,
                  got_fmt_header))"

definition w64_chunk :: "env \<Rightarrow> w64_state \<Rightarrow> error + w64_state" where
  "w64_chunk E s =
     and_then (thrown (EnsureRangeAccessible E (ws_prov s) (ws_filepos s) 16))
       (\<lambda>(p1, chunk_guid).
     and_then (thrown (EnsureRangeAccessible E p1 (ws_filepos s + 16) 8))
       (\<lambda>(p2, size_ptr).
     and_then (deref p2 size_ptr 0 8) (\<lambda>size_bytes.
     let chunk_size = le64 size_bytes in
     and_then (deref p2 chunk_guid 0 16) (\<lambda>guid.
     and_then
       (if CheckGuid guid w64Guidfmt
        then w64_fmt_chunk E p2 (ws_filepos s) (ws_got_fmt_header s)
        else if CheckGuid guid w64Guiddata
        then w64_data_chunk p2 (ws_filepos s) chunk_size (ws_got_fmt_header s)
        else Inr (p2, ws_got_fmt_header s))
       (\<lambda>(p3, got).
     let adv = (chunk_size + 7) AND NOT 7
     in Inr \<lparr> ws_prov = p3, ws_data_left = ws_data_left s - adv,
              ws_filepos = ws_filepos s + adv, ws_got_fmt_header = got \<rparr>)))))"

partial_function (option) w64_loop :: "env \<Rightarrow> w64_state \<Rightarrow> (error + provider) option" where
  "w64_loop E s =
     (if ws_data_left s = 0 then Some (Inr (ws_prov s))
      else case w64_chunk E s of
             Inl e \<Rightarrow> Some (Inl e)
           | Inr s' \<Rightarrow> w64_loop E s')"

declare w64_loop.simps [code]

text \<open>The constructor up to the loop. \<^verbatim>\<open>RiffChunk\<close> has riff_guid at 0, file_size at 16
  and format_guid at 24.\<close>

definition w64_header :: "env \<Rightarrow> byte list \<Rightarrow> error + w64_state" where
  "w64_header E f =
     (if file_size (PCMAudioProvider E f) <s smallest_possible_file
      then Inl (AudioDataNotFoundError ''File is too small to be a Wave64 file'')
      else
        and_then (thrown (EnsureRangeAccessible E (PCMAudioProvider E f) 0 sizeof_RiffChunk))
          (\<lambda>(p, filestart).
        and_then (deref p filestart 0 16) (\<lambda>riff_guid.
        if \<not> CheckGuid riff_guid w64GuidRIFF
        then Inl (AudioDataNotFoundError ''File is not a Wave64 RIFF file'')
        else
          and_then (deref p filestart 24 16) (\<lambda>format_guid.
          if \<not> CheckGuid format_guid w64GuidWAVE
          then Inl (AudioDataNotFoundError ''File is not a Wave64 WAVE file'')
          else
            and_then (deref p filestart 16 8) (\<lambda>size_bytes.
            Inr \<lparr> ws_prov = p \<lparr> prov_num_samples := 0 \<rparr>,
                   ws_data_left = le64 size_bytes - sizeof_RiffChunk,
                   ws_filepos = sizeof_RiffChunk,
                   ws_got_fmt_header = False \<rparr>)))))"

definition Wave64AudioProvider :: "env \<Rightarrow> byte list \<Rightarrow> (error + provider) option" where
  "Wave64AudioProvider E f =
     (case w64_header E f of
        Inl e \<Rightarrow> Some (Inl e)
      | Inr s \<Rightarrow> w64_loop E s)"

subsection \<open>The factory\<close>

text \<open>
  A \<^verbatim>\<open>catch\<close> clause of \<^verbatim>\<open>CreatePCMAudioProvider\<close>: the new value of
  \<^verbatim>\<open>wrong_file_type\<close> and the message of the exception, or \<open>None\<close> for an exception
  that neither clause catches.
\<close>

definition caught :: "bool \<Rightarrow> error \<Rightarrow> (bool \<times> string) option" where
  "caught wrong_file_type err =
     (case err of
        AudioDataNotFoundError m \<Rightarrow> Some (wrong_file_type, m)
      | AudioProviderOpenError m \<Rightarrow> Some (False, m)
      | _ \<Rightarrow> None)"

definition CreatePCMAudioProvider :: "env \<Rightarrow> byte list \<Rightarrow> (error + provider) option" where
  "CreatePCMAudioProvider E f =
     (case RiffWavPCMAudioProvider E f of
        None \<Rightarrow> None
      | Some (Inr p) \<Rightarrow> Some (Inr p)
      | Some (Inl err) \<Rightarrow>
          (case caught True err of
             None \<Rightarrow> Some (Inl err)
           | Some (wrong_file_type, m) \<Rightarrow>
               let msg = ''RIFF PCM WAV audio provider: '' @ m in
               (case Wave64AudioProvider E f of
                  None \<Rightarrow> None
                | Some (Inr p) \<Rightarrow> Some (Inr p)
                | Some (Inl err2) \<Rightarrow>
                    (case caught wrong_file_type err2 of
                       None \<Rightarrow> Some (Inl err2)
                     | Some (wrong_file_type2, m2) \<Rightarrow>
                         let msg2 = msg @ [CHR 0x0A] @ ''Wave64 audio provider: '' @ m2 in
                         if wrong_file_type2
                         then Some (Inl (AudioDataNotFoundError msg2))
                         else Some (Inl (AudioProviderOpenError msg2))))))"

subsection \<open>Reading samples\<close>

text \<open>
  The destination of \<^verbatim>\<open>FillBuffer\<close> is the caller's buffer \<open>fs_dst\<close>, and \<^verbatim>\<open>buf\<close> is the
  position \<open>fs_buf\<close> in it. \<^verbatim>\<open>memcpy\<close> takes its length as a \<^verbatim>\<open>size_t\<close>; it reads the
  source as \<open>deref\<close> does, and a write that leaves the buffer is an invalid access.
\<close>

record fill_state =
  fs_prov :: provider
  fs_dst :: "byte list"
  fs_buf :: int
  fs_start :: int64
  fs_count :: int64

definition memcpy ::
  "provider \<Rightarrow> byte list \<Rightarrow> int \<Rightarrow> pointer \<Rightarrow> uint64 \<Rightarrow> error + byte list" where
  "memcpy p dst buf src n =
     and_then (deref p src 0 (unat n)) (\<lambda>bytes.
     if 0 \<le> buf \<and> buf + uint n \<le> int (length dst)
     then Inr (take (nat buf) dst @ bytes @ drop (nat buf + unat n) dst)
     else Inl InvalidMemoryAccess)"

text \<open>The body of the loop of \<^verbatim>\<open>FillBuffer\<close> for the index point \<open>ip\<close>, without the
  \<^verbatim>\<open>index++\<close>. An exception leaves the state of the read as it is at the \<^verbatim>\<open>throw\<close>.\<close>

definition fill_step ::
  "env \<Rightarrow> IndexPoint \<Rightarrow> fill_state \<Rightarrow> (error \<times> fill_state) + fill_state" where
  "fill_step E ip s =
     (let p = fs_prov s; start = fs_start s; count = fs_count s in
      if start_sample ip \<le>s start \<and> start <s start_sample ip + num_samples ip
      then
        let samples_can_do = num_samples ip - start + start_sample ip;
            samples_can_do = (if count <s samples_can_do then count else samples_can_do);
            nbytes = samples_can_do * scast (bytes_per_sample p) * scast (channels p)
        in
        (case EnsureRangeAccessible E p
                (start_byte ip
                   + (start - start_sample ip) * scast (bytes_per_sample p)
                       * scast (channels p))
                nbytes of
           Inl (e, p') \<Rightarrow> Inl (e, s \<lparr> fs_prov := p' \<rparr>)
         | Inr (p', src) \<Rightarrow>
             (case memcpy p' (fs_dst s) (fs_buf s) src (to_size_t E nbytes) of
                Inl e \<Rightarrow> Inl (e, s \<lparr> fs_prov := p' \<rparr>)
              | Inr dst' \<Rightarrow>
                  Inr \<lparr> fs_prov = p', fs_dst = dst', fs_buf = fs_buf s + sint nbytes,
                        fs_start = start + samples_can_do,
                        fs_count = count - samples_can_do \<rparr>))
      else Inr s)"

text \<open>The loop \<^verbatim>\<open>while (count > 0 && index < index_points.size())\<close>, on the index
  points from \<^verbatim>\<open>index\<close> on.\<close>

fun FillBuffer_loop ::
  "env \<Rightarrow> IndexPoint list \<Rightarrow> fill_state \<Rightarrow> (error \<times> fill_state) + fill_state" where
  "FillBuffer_loop E [] s = Inr s"
| "FillBuffer_loop E (ip # ips) s =
     (if 0 <s fs_count s
      then (case fill_step E ip s of
              Inl e \<Rightarrow> Inl e
            | Inr s' \<Rightarrow> FillBuffer_loop E ips s')
      else Inr s)"

text \<open>\<^verbatim>\<open>FillBuffer\<close> returns nothing; what it leaves behind is the provider (with its
  mapping) and the destination buffer, also when an exception ends it.\<close>

definition FillBuffer ::
  "env \<Rightarrow> provider \<Rightarrow> byte list \<Rightarrow> int64 \<Rightarrow> int64
     \<Rightarrow> (error \<times> provider \<times> byte list) + (provider \<times> byte list)" where
  "FillBuffer E p dst start count =
     (case FillBuffer_loop E (index_points p)
             \<lparr> fs_prov = p, fs_dst = dst, fs_buf = 0, fs_start = start, fs_count = count \<rparr> of
        Inl (e, s) \<Rightarrow> Inl (e, fs_prov s, fs_dst s)
      | Inr s \<Rightarrow> Inr (fs_prov s, fs_dst s))"

subsection \<open>The index as a timeline\<close>

text \<open>
  The index points follow one another from sample \<open>s\<close> on: each starts where the one
  before it ends, in 64-bit arithmetic. \<open>index_sums\<close> adds that the sample count of the
  provider is the sum of the counts of the index points.
\<close>

fun contiguous :: "int64 \<Rightarrow> IndexPoint list \<Rightarrow> bool" where
  "contiguous s [] = True"
| "contiguous s (ip # ips) = (start_sample ip = s \<and> contiguous (s + num_samples ip) ips)"

definition index_sums :: "provider \<Rightarrow> bool" where
  "index_sums p =
     (contiguous 0 (index_points p)
      \<and> prov_num_samples p = sum_list (map num_samples (index_points p)))"

text \<open>The invariant of the RIFF WAV loop.\<close>

definition riff_inv :: "riff_state \<Rightarrow> bool" where
  "riff_inv t =
     (index_sums (rs_prov t)
      \<and> (rs_got_fmt_header t \<longrightarrow> 0 \<le>s channels (rs_prov t))
      \<and> (\<forall>ip \<in> set (index_points (rs_prov t)). 0 \<le>s num_samples ip))"

subsection \<open>What a read returns\<close>

text \<open>
  The words of the program read as integers: a frame has \<open>frame_size\<close> bytes. The
  mapper is \<open>mapper_ready\<close> where mapping succeeds, for a file of less than \<open>2^63\<close> bytes
  (less than \<open>2^32 - 2^20\<close> bytes where \<^verbatim>\<open>size_t\<close> has 32 bits), when nothing is mapped
  or the mapped region lies inside the file. An index point is
  \<open>point_ok\<close> when its counts are not negative and its frames lie inside the file.
\<close>

definition frame_size :: "provider \<Rightarrow> int" where
  "frame_size p = sint (bytes_per_sample p) * sint (channels p)"

definition mapper_ready :: "env \<Rightarrow> provider \<Rightarrow> bool" where
  "mapper_ready E p =
     ((\<forall>off len. \<not> map_fails E off len)
      \<and> file_size p = of_nat (length (file_bytes p))
      \<and> int (length (file_bytes p)) < (if size_t_bytes E = 4 then 2 ^ 32 - 2 ^ 20 else 2 ^ 63)
      \<and> (case region p of
            None \<Rightarrow> True
          | Some sz \<Rightarrow> 0 \<le> sint (mapping_start p)
                       \<and> sint (mapping_start p) + uint sz \<le> int (length (file_bytes p))))"

definition point_ok :: "provider \<Rightarrow> IndexPoint \<Rightarrow> bool" where
  "point_ok p ip =
     (0 \<le> sint (num_samples ip) \<and> 0 \<le> sint (start_byte ip) \<and> 0 \<le> sint (start_sample ip)
      \<and> sint (start_sample ip) + sint (num_samples ip) < 2 ^ 63
      \<and> sint (start_byte ip) + sint (num_samples ip) * frame_size p
           \<le> int (length (file_bytes p)))"

text \<open>
  The bytes that an index point stands for, and the PCM stream of an index: the bytes of
  its points one after the other. A request for \<open>C\<close> frames from frame \<open>S\<close> of a stream
  that ends at frame \<open>End\<close> has \<open>frames_copied C S End\<close> frames to give.
\<close>

definition chunk_bytes :: "provider \<Rightarrow> IndexPoint \<Rightarrow> byte list" where
  "chunk_bytes p ip =
     take (nat (sint (num_samples ip) * frame_size p))
       (drop (nat (sint (start_byte ip))) (file_bytes p))"

definition pcm_stream :: "provider \<Rightarrow> IndexPoint list \<Rightarrow> byte list" where
  "pcm_stream p ips = concat (map (chunk_bytes p) ips)"

definition frames_copied :: "int \<Rightarrow> int \<Rightarrow> int \<Rightarrow> int" where
  "frames_copied C S End = (if C \<le> 0 then 0 else min C (max 0 (End - S)))"

definition index_end :: "int64 \<Rightarrow> IndexPoint list \<Rightarrow> int" where
  "index_end s0 ips = sint s0 + (\<Sum>ip\<leftarrow>ips. sint (num_samples ip))"

text \<open>A provider that can be read: a ready mapper, a format without negative values, and
  a contiguous index of points inside the file that add up to \<open>num_samples\<close>.\<close>

definition readable :: "env \<Rightarrow> provider \<Rightarrow> bool" where
  "readable E p =
     (mapper_ready E p
      \<and> 0 \<le> sint (bytes_per_sample p) \<and> 0 \<le> sint (channels p)
      \<and> contiguous 0 (index_points p)
      \<and> (\<forall>ip \<in> set (index_points p). point_ok p ip)
      \<and> sint (prov_num_samples p) = index_end 0 (index_points p))"

subsection \<open>Builds and files used as examples\<close>

text \<open>A 64-bit and a 32-bit build on which every mapping succeeds.\<close>

definition env64 :: env where
  "env64 = \<lparr> size_t_bytes = 8, map_fails = (\<lambda>_ _. False),
              uninit_sample_rate = 0, uninit_channels = 0, uninit_bytes_per_sample = 0,
              uninit_num_samples = 0 \<rparr>"


text \<open>
  The first 44 bytes of a RIFF WAV file: the RIFF header (size 52), a 16-byte format
  chunk (PCM, 2 channels, 44100 samples per second, 176400 bytes per second, block
  alignment 4, 16 bits) and the header of a data chunk of 16 bytes, that is 4 frames.
\<close>

definition riff_pcm_header :: "byte list" where
  "riff_pcm_header =
     bytes_of ''RIFF'' @ [52, 0, 0, 0] @ bytes_of ''WAVE''
     @ bytes_of ''fmt '' @ [16, 0, 0, 0]
     @ [1, 0, 2, 0, 0x44, 0xAC, 0, 0, 0x10, 0xB1, 2, 0, 4, 0, 16, 0]
     @ bytes_of ''data'' @ [16, 0, 0, 0]"


text \<open>The two GUIDs of a Wave64 header around a size field of 40, and no chunk.\<close>

definition w64_header_only :: "byte list" where
  "w64_header_only = w64GuidRIFF @ [40, 0, 0, 0, 0, 0, 0, 0] @ w64GuidWAVE"

text \<open>
  The first 104 bytes of a Wave64 file of 120 bytes: the header, a format chunk of
  size 40 (its 24-byte header and a 16-byte format: PCM, 2 channels, 44100 samples per
  second, 16 bits) at 40, and at 80 the GUID and size 40 of a data chunk, whose 16
  payload bytes, 4 frames, start at 104.
\<close>

definition w64_pcm_header :: "byte list" where
  "w64_pcm_header =
     w64GuidRIFF @ [120, 0, 0, 0, 0, 0, 0, 0] @ w64GuidWAVE
     @ w64Guidfmt @ [40, 0, 0, 0, 0, 0, 0, 0]
     @ [1, 0, 2, 0, 0x44, 0xAC, 0, 0, 0x10, 0xB1, 2, 0, 4, 0, 16, 0]
     @ w64Guiddata @ [40, 0, 0, 0, 0, 0, 0, 0]"

text \<open>A RIFF WAV file whose format chunk has compression 2 (ADPCM).\<close>

definition riff_adpcm :: "byte list" where
  "riff_adpcm =
     bytes_of ''RIFF'' @ [28, 0, 0, 0] @ bytes_of ''WAVE''
     @ bytes_of ''fmt '' @ [16, 0, 0, 0]
     @ [2, 0, 2, 0, 0x44, 0xAC, 0, 0, 0x10, 0xB1, 2, 0, 4, 0, 16, 0]"

text \<open>A RIFF WAV file cut after the first four bytes of its first chunk.\<close>

definition riff_truncated :: "byte list" where
  "riff_truncated =
     bytes_of ''RIFF'' @ [36, 0, 0, 0] @ bytes_of ''WAVE'' @ bytes_of ''fmt ''"

text \<open>A Wave64 file of 120 bytes whose header announces 200 bytes and whose first chunk,
  of an unknown type and of size 80, ends at the end of the file.\<close>

definition w64_truncated :: "byte list" where
  "w64_truncated =
     w64GuidRIFF @ [200, 0, 0, 0, 0, 0, 0, 0] @ w64GuidWAVE
     @ [0, 0, 0, 0, 0, 0, 0, 0, 0, 0, 0, 0, 0, 0, 0, 0] @ [80, 0, 0, 0, 0, 0, 0, 0] @ [0,
       0, 0, 0, 0, 0, 0, 0, 0, 0, 0, 0, 0, 0, 0, 0, 0, 0, 0, 0, 0, 0, 0, 0, 0, 0, 0, 0,
       0, 0, 0, 0, 0, 0, 0, 0, 0, 0, 0, 0, 0, 0, 0, 0, 0, 0, 0, 0, 0, 0, 0, 0, 0, 0, 0, 0]"

text \<open>RIFF WAV files with a data chunk of 4 bytes after a format chunk that declares
  no channel, or 0 bits per sample; a Wave64 file whose format chunk declares no
  channel.\<close>

definition riff_zero_channels :: "byte list" where
  "riff_zero_channels =
     bytes_of ''RIFF'' @ [40, 0, 0, 0] @ bytes_of ''WAVE''
     @ bytes_of ''fmt '' @ [16, 0, 0, 0]
     @ [1, 0, 0, 0, 0x44, 0xAC, 0, 0, 0x10, 0xB1, 2, 0, 4, 0, 16, 0]
     @ bytes_of ''data'' @ [4, 0, 0, 0] @ [0, 0, 0, 0]"

definition riff_zero_bits :: "byte list" where
  "riff_zero_bits =
     bytes_of ''RIFF'' @ [40, 0, 0, 0] @ bytes_of ''WAVE''
     @ bytes_of ''fmt '' @ [16, 0, 0, 0]
     @ [1, 0, 2, 0, 0x44, 0xAC, 0, 0, 0x10, 0xB1, 2, 0, 4, 0, 0, 0]
     @ bytes_of ''data'' @ [4, 0, 0, 0] @ [0, 0, 0, 0]"

definition w64_zero_channels :: "byte list" where
  "w64_zero_channels =
     w64GuidRIFF @ [120, 0, 0, 0, 0, 0, 0, 0] @ w64GuidWAVE
     @ w64Guidfmt @ [40, 0, 0, 0, 0, 0, 0, 0]
     @ [1, 0, 0, 0, 0x44, 0xAC, 0, 0, 0x10, 0xB1, 2, 0, 4, 0, 16, 0]
     @ w64Guiddata @ [40, 0, 0, 0, 0, 0, 0, 0] @ [0, 0, 0, 0, 0, 0, 0, 0, 0, 0, 0, 0, 0,
       0, 0, 0]"

text \<open>A RIFF WAV file of 20 bytes whose only chunk, of type JUNK, declares the size
  \<open>0xFFFFFFF8\<close>; a Wave64 file of 120 bytes whose only chunk,
       of an unknown type, declares
  the size 0.\<close>

definition riff_hang :: "byte list" where
  "riff_hang =
     bytes_of ''RIFF'' @ [12, 0, 0, 0] @ bytes_of ''WAVE''
     @ bytes_of ''JUNK'' @ [0xF8, 0xFF, 0xFF, 0xFF]"

definition w64_hang :: "byte list" where
  "w64_hang = w64GuidRIFF @ [120, 0, 0, 0, 0, 0, 0, 0] @ w64GuidWAVE @ [0, 0, 0, 0, 0, 0,
       0, 0, 0, 0, 0, 0, 0, 0, 0, 0, 0, 0, 0, 0, 0, 0, 0, 0, 0, 0, 0, 0, 0, 0, 0, 0, 0,
       0, 0, 0, 0, 0, 0, 0, 0, 0, 0, 0, 0, 0, 0, 0, 0, 0, 0, 0, 0, 0, 0, 0, 0, 0, 0, 0,
       0, 0, 0, 0, 0, 0, 0, 0, 0, 0, 0, 0, 0, 0, 0, 0, 0, 0, 0, 0]"

text \<open>
  A Wave64 file of 160 bytes (8-bit mono): a format chunk of declared size 96 at 40,
  inside it at 96 a data chunk of size 32, and at 136 a data chunk of declared size
  \<open>2^64 - 40\<close>, which sends the loop back to 96.
\<close>

definition w64_backwards :: "byte list" where
  "w64_backwards =
     w64GuidRIFF @ [128, 0, 0, 0, 0, 0, 0, 0] @ w64GuidWAVE
     @ w64Guidfmt @ [96, 0, 0, 0, 0, 0, 0, 0]
     @ [1, 0, 1, 0, 0x40, 0x1F, 0, 0, 0x40, 0x1F, 0, 0, 1, 0, 8, 0] @ [0, 0, 0, 0, 0, 0,
       0, 0, 0, 0, 0, 0, 0, 0, 0, 0]
     @ w64Guiddata @ [32, 0, 0, 0, 0, 0, 0, 0] @ [0, 0, 0, 0, 0, 0, 0, 0, 0, 0, 0, 0, 0,
       0, 0, 0]
     @ w64Guiddata @ [0xD8, 0xFF, 0xFF, 0xFF, 0xFF, 0xFF, 0xFF, 0xFF]"

text \<open>A RIFF WAV file (16-bit stereo) with two data chunks of 8 bytes, 2 frames each.\<close>

definition riff_two_chunks :: "byte list" where
  "riff_two_chunks =
     bytes_of ''RIFF'' @ [60, 0, 0, 0] @ bytes_of ''WAVE''
     @ bytes_of ''fmt '' @ [16, 0, 0, 0]
     @ [1, 0, 2, 0, 0x44, 0xAC, 0, 0, 0x10, 0xB1, 2, 0, 4, 0, 16, 0]
     @ bytes_of ''data'' @ [8, 0, 0, 0] @ [1, 2, 3, 4, 5, 6, 7, 8]
     @ bytes_of ''data'' @ [8, 0, 0, 0] @ [9, 10, 11, 12, 13, 14, 15, 16]"

text \<open>The provider that the RIFF WAV parser makes of \<open>riff_two_chunks\<close> on \<open>env64\<close>.\<close>

definition two_chunks_provider :: provider where
  "two_chunks_provider =
     \<lparr> file_bytes = riff_two_chunks, file_size = 68, float_samples = False,
       sample_rate = 44100, channels = 2, bytes_per_sample = 2, prov_num_samples = 4,
       index_points = [\<lparr> start_byte = 44, start_sample = 0, num_samples = 2 \<rparr>,
                       \<lparr> start_byte = 60, start_sample = 2, num_samples = 2 \<rparr>],
       mapping_start = 0, region = Some 68, mappings_made = 1 \<rparr>"

text \<open>A provider of a 32-byte file, 24-bit mono, whose index has two points: 3 frames at
  byte 2 and 4 frames at byte 14.\<close>

definition mono24 :: provider where
  "mono24 =
     \<lparr> file_bytes = [0, 1, 2, 3, 4, 5, 6, 7, 8, 9, 10, 11, 12, 13, 14, 15, 16, 17, 18, 19,
                     20, 21, 22, 23, 24, 25, 26, 27, 28, 29, 30, 31],
       file_size = 32, float_samples = False, sample_rate = 8000, channels = 1,
       bytes_per_sample = 3, prov_num_samples = 7,
       index_points = [\<lparr> start_byte = 2, start_sample = 0, num_samples = 3 \<rparr>,
                       \<lparr> start_byte = 14, start_sample = 3, num_samples = 4 \<rparr>],
       mapping_start = 0, region = None, mappings_made = 0 \<rparr>"



section \<open>Properties\<close>

lemmas pcm_defs =
  PCMAudioProvider_def EnsureRangeAccessible_def thrown_def mapped_region_def
  within_region_def deref_def and_then_def bytes_of_def CheckFourcc_def CheckGuid_def
  le16_def le32_def le64_def sdiv32_def sdiv64_def to_size_t_def Let_def word_sle_eq
  word_sless_alt

lemmas riff_defs =
  RiffWavPCMAudioProvider_def riff_header_def riff_loop.simps riff_chunk_def
  riff_fmt_chunk_def riff_data_chunk_def

lemmas fill_defs = FillBuffer_def fill_step_def memcpy_def

lemmas w64_step_defs =
  w64_header_def w64_chunk_def w64_fmt_chunk_def w64_data_chunk_def w64GuidRIFF_def
  w64GuidWAVE_def w64Guidfmt_def w64Guiddata_def smallest_possible_file_def
  sizeof_RiffChunk_def sizeof_FormatChunk_def sizeof_DataChunk_def

lemmas w64_defs = Wave64AudioProvider_def w64_loop.simps w64_step_defs

lemmas riff_step_defs =
  riff_header_def riff_chunk_def riff_fmt_chunk_def riff_data_chunk_def

subsection \<open>Files too small for Wave64\<close>

text \<open>
  C10. A file shorter than \<open>smallest_possible_file\<close>, the sizes of \<^verbatim>\<open>RiffChunk\<close>,
  \<^verbatim>\<open>FormatChunk\<close> and \<^verbatim>\<open>DataChunk\<close> together, is refused by the Wave64 parser with
  the wrong-container error ``File is too small to be a Wave64 file'' whatever its
  bytes are, so the result is never the invalid-content error.
\<close>

theorem Wave64_too_small:
  assumes "int (length f) < sint smallest_possible_file"
  shows "Wave64AudioProvider E f
           = Some (Inl (AudioDataNotFoundError ''File is too small to be a Wave64 file''))
         \<and> (\<forall>m. Wave64AudioProvider E f \<noteq> Some (Inl (AudioProviderOpenError m)))"
proof -
  have "length f < 120"
    using assms
    by (simp add: smallest_possible_file_def sizeof_RiffChunk_def sizeof_FormatChunk_def
        sizeof_DataChunk_def)
  then have "sint (of_nat (length f) :: 64 word) = int (length f)"
    by (simp add: signed_of_nat signed_take_bit_int_eq_self)
  then have "file_size (PCMAudioProvider E f) <s smallest_possible_file"
    using assms by (simp add: word_sless_alt PCMAudioProvider_def)
  then show ?thesis
    by (simp add: Wave64AudioProvider_def w64_header_def)
qed

theorem Wave64_too_small_witness:
  "Wave64AudioProvider env64 w64_header_only
     = Some (Inl (AudioDataNotFoundError ''File is too small to be a Wave64 file''))
   \<and> take 16 w64_header_only = w64GuidRIFF
   \<and> take 16 (drop 24 w64_header_only) = w64GuidWAVE"
proof -
  have h: "int (length w64_header_only) < sint smallest_possible_file"
    by (simp add: w64_header_only_def w64GuidRIFF_def w64GuidWAVE_def
        smallest_possible_file_def sizeof_RiffChunk_def sizeof_FormatChunk_def
        sizeof_DataChunk_def)
  have g: "take 16 w64_header_only = w64GuidRIFF
           \<and> take 16 (drop 24 w64_header_only) = w64GuidWAVE"
    by (simp add: w64_header_only_def w64GuidRIFF_def w64GuidWAVE_def)
  from Wave64_too_small [OF h, of env64] g show ?thesis
    by simp
qed

subsection \<open>The index point of a Wave64 data chunk\<close>

text \<open>
  C3, on Wave64. The file \<open>w64_pcm_header\<close> followed by 16 payload bytes is a 16-bit
  stereo Wave64 file whose data chunk starts at 80 and whose 4 frames start at 104.
  The parser accepts it and records one index point with \<open>start_byte = 80\<close>, the
  offset of the GUID of the chunk and not of its payload, and \<open>num_samples = 10\<close>, the
  whole chunk size 40 divided by 2 and by 2 and not the 16 payload bytes; the first
  frame that \<open>FillBuffer\<close> returns is the first four bytes of the GUID.
\<close>

theorem Wave64_index_point_at_chunk_header:
  "\<exists>p p'. Wave64AudioProvider env64
             (w64_pcm_header @ [pa, pb, pc, pd, pe, pf, pg, ph, pi, pj, pk, pl, pm, pn, po, pq])
           = Some (Inr p)
       \<and> index_points p = [\<lparr> start_byte = 80, start_sample = 0, num_samples = 10 \<rparr>]
       \<and> prov_num_samples p = 10
       \<and> FillBuffer env64 p [da, db, dc, dd] 0 1 = Inr (p', take 4 w64Guiddata)"
  by (simp add: w64_pcm_header_def env64_def pcm_defs w64_defs fill_defs)

text \<open>The RIFF WAV parser on the same audio: the index point starts at the payload (byte
  44) and counts the 4 frames of the 16 payload bytes.\<close>

lemma riff_index_point_at_payload:
  "\<exists>p. RiffWavPCMAudioProvider env64
           (riff_pcm_header @ [pa, pb, pc, pd, pe, pf, pg, ph, pi, pj, pk, pl, pm, pn, po, pq])
         = Some (Inr p)
       \<and> index_points p = [\<lparr> start_byte = 44, start_sample = 0, num_samples = 4 \<rparr>]"
  by (simp add: riff_pcm_header_def env64_def pcm_defs riff_defs)

subsection \<open>Zero divisors\<close>

text \<open>
  C7. Neither parser checks the channel count or the bytes per sample of the format
  chunk: on a RIFF WAV file whose format chunk declares 0 channels or 0 bits per sample,
  and on a Wave64 file that declares 0 channels, the data chunk makes the parser
  divide by zero; the result is not the invalid-content error.
\<close>

theorem parsers_divide_by_zero:
  "RiffWavPCMAudioProvider env64 riff_zero_channels = Some (Inl DivisionByZero)
   \<and> RiffWavPCMAudioProvider env64 riff_zero_bits = Some (Inl DivisionByZero)
   \<and> Wave64AudioProvider env64 w64_zero_channels = Some (Inl DivisionByZero)"
  by (simp add: riff_zero_channels_def riff_zero_bits_def w64_zero_channels_def env64_def
      pcm_defs riff_defs w64_defs)

subsection \<open>Chunk loops that do not end\<close>

text \<open>A chunk that leaves the state of the loop as it was, with data left, is read
  again and again.\<close>

lemma riff_loop_stuck:
  assumes "riff_chunk E s = Inr s" and "rs_data_left s \<noteq> 0"
  shows "riff_loop E s = None"
proof (rule ccontr)
  assume "riff_loop E s \<noteq> None"
  then obtain y where y: "riff_loop E s = Some y"
    by auto
  have "\<not> (E = E \<and> s = s)"
  proof (rule riff_loop.raw_induct [where P = "\<lambda>E' s' y'. \<not> (E' = E \<and> s' = s)", OF _ y])
    fix loop E' s' y'
    assume IH: "\<And>a b z. loop a b = Some z \<Longrightarrow> \<not> (a = E \<and> b = s)"
      and body: "(if rs_data_left s' = 0 then Some (Inr (rs_prov s'))
                  else case riff_chunk E' s' of Inl e \<Rightarrow> Some (Inl e)
                       | Inr s'' \<Rightarrow> loop E' s'') = Some y'"
    show "\<not> (E' = E \<and> s' = s)"
    proof
      assume "E' = E \<and> s' = s"
      with body assms have "loop E s = Some y'"
        by simp
      with IH show False
        by blast
    qed
  qed
  then show False
    by simp
qed

lemma w64_loop_stuck:
  assumes "w64_chunk E s = Inr s" and "ws_data_left s \<noteq> 0"
  shows "w64_loop E s = None"
proof (rule ccontr)
  assume "w64_loop E s \<noteq> None"
  then obtain y where y: "w64_loop E s = Some y"
    by auto
  have "\<not> (E = E \<and> s = s)"
  proof (rule w64_loop.raw_induct [where P = "\<lambda>E' s' y'. \<not> (E' = E \<and> s' = s)", OF _ y])
    fix loop E' s' y'
    assume IH: "\<And>a b z. loop a b = Some z \<Longrightarrow> \<not> (a = E \<and> b = s)"
      and body: "(if ws_data_left s' = 0 then Some (Inr (ws_prov s'))
                  else case w64_chunk E' s' of Inl e \<Rightarrow> Some (Inl e)
                       | Inr s'' \<Rightarrow> loop E' s'') = Some y'"
    show "\<not> (E' = E \<and> s' = s)"
    proof
      assume "E' = E \<and> s' = s"
      with body assms have "loop E s = Some y'"
        by simp
      with IH show False
        by blast
    qed
  qed
  then show False
    by simp
qed

text \<open>
  C8. The RIFF WAV file \<open>riff_hang\<close> has one chunk of an unknown type whose declared
  size \<open>0xFFFFFFF8\<close>, with the 8 bytes of the chunk header, adds up to 0 in 32 bits; the
  Wave64 file \<open>w64_hang\<close> has one chunk of an unknown type and size 0. In both the chunk
  is skipped without moving the cursor or the count of data left, and the loop of the
  parser does not end: the constructor returns nothing and raises nothing.
\<close>

theorem chunk_loops_do_not_end:
  "RiffWavPCMAudioProvider env64 riff_hang = None
   \<and> Wave64AudioProvider env64 w64_hang = None"
proof -
  define r where "r = \<lparr> rs_prov = (PCMAudioProvider env64 riff_hang)
                           \<lparr> region := Some 20, mappings_made := 1 \<rparr>,
                        rs_data_left = 8, rs_filepos = 12, rs_got_fmt_header = False \<rparr>"
  define w where "w = \<lparr> ws_prov = (PCMAudioProvider env64 w64_hang)
                           \<lparr> region := Some 120, mappings_made := 1 \<rparr>,
                        ws_data_left = 80, ws_filepos = 40, ws_got_fmt_header = False \<rparr>"
  have r0: "riff_header env64 riff_hang = Inr r"
    by (simp add: r_def riff_hang_def env64_def pcm_defs riff_step_defs)
  have r1: "riff_chunk env64 r = Inr r"
    by (simp add: r_def riff_hang_def env64_def pcm_defs riff_step_defs)
  have r2: "rs_data_left r \<noteq> 0"
    by (simp add: r_def)
  have w0: "w64_header env64 w64_hang = Inr w"
    by (simp add: w_def w64_hang_def env64_def pcm_defs w64_step_defs)
  have w1: "w64_chunk env64 w = Inr w"
    by (simp add: w_def w64_hang_def env64_def pcm_defs w64_step_defs)
  have w2: "ws_data_left w \<noteq> 0"
    by (simp add: w_def)
  show ?thesis
    using r0 riff_loop_stuck [OF r1 r2] w0 w64_loop_stuck [OF w1 w2]
    by (simp add: RiffWavPCMAudioProvider_def Wave64AudioProvider_def)
qed

subsection \<open>The factory\<close>

text \<open>
  C4 as stated fails on a RIFF WAV file that ends inside its first chunk header: the
  RIFF WAV parser has matched the signature and fails with the decode error of
  \<open>EnsureRangeAccessible\<close>, which no \<^verbatim>\<open>catch\<close> clause of the factory takes; the factory
  raises that decode error, not the invalid-content error, and the Wave64 parser (which
  would refuse the file too) is not run.
\<close>

theorem factory_decode_error_counterexample:
  "RiffWavPCMAudioProvider env64 riff_truncated
     = Some (Inl (AudioDecodeError ''Attempted to map beyond end of file''))
   \<and> Wave64AudioProvider env64 riff_truncated
       = Some (Inl (AudioDataNotFoundError ''File is too small to be a Wave64 file''))
   \<and> CreatePCMAudioProvider env64 riff_truncated
       = Some (Inl (AudioDecodeError ''Attempted to map beyond end of file''))"
  by (simp add: CreatePCMAudioProvider_def caught_def riff_truncated_def env64_def
      pcm_defs riff_defs w64_defs)

text \<open>
  C4, amended. The factory returns the provider of the RIFF WAV parser when that
  succeeds. When the RIFF WAV parser fails with the wrong-container or the
  invalid-format error, the factory runs the Wave64 parser and returns its provider
  when that succeeds; when it fails with one of these two errors as well, the factory
  raises the unrecognized-container error if both failed with the wrong-container error
  and the invalid-content error otherwise, and in both cases the message is
  ``RIFF PCM WAV audio provider: '', the message of the first, a newline,
  ``Wave64 audio provider: '' and the message of the second. A failure of another kind
  (a decode error) of either parser leaves the factory as it is; after such a failure
  of the RIFF WAV parser the Wave64 parser is not run.
\<close>

theorem factory_outcomes:
  "(RiffWavPCMAudioProvider E f = Some (Inr p) \<longrightarrow>
      CreatePCMAudioProvider E f = Some (Inr p))
   \<and> (RiffWavPCMAudioProvider E f = Some (Inl ea)
        \<and> (ea = AudioDataNotFoundError ma \<or> ea = AudioProviderOpenError ma)
        \<and> Wave64AudioProvider E f = Some (Inr p) \<longrightarrow>
      CreatePCMAudioProvider E f = Some (Inr p))
   \<and> (RiffWavPCMAudioProvider E f = Some (Inl ea)
        \<and> (ea = AudioDataNotFoundError ma \<or> ea = AudioProviderOpenError ma)
        \<and> Wave64AudioProvider E f = Some (Inl eb)
        \<and> (eb = AudioDataNotFoundError mb \<or> eb = AudioProviderOpenError mb) \<longrightarrow>
      CreatePCMAudioProvider E f
        = Some (Inl ((if ea = AudioDataNotFoundError ma \<and> eb = AudioDataNotFoundError mb
                      then AudioDataNotFoundError else AudioProviderOpenError)
                     (''RIFF PCM WAV audio provider: '' @ ma
                        @ ''\<newline>Wave64 audio provider: '' @ mb))))
   \<and> (RiffWavPCMAudioProvider E f = Some (Inl ea)
        \<and> (\<forall>m. ea \<noteq> AudioDataNotFoundError m \<and> ea \<noteq> AudioProviderOpenError m) \<longrightarrow>
      CreatePCMAudioProvider E f = Some (Inl ea))
   \<and> (RiffWavPCMAudioProvider E f = Some (Inl ea)
        \<and> (ea = AudioDataNotFoundError ma \<or> ea = AudioProviderOpenError ma)
        \<and> Wave64AudioProvider E f = Some (Inl eb)
        \<and> (\<forall>m. eb \<noteq> AudioDataNotFoundError m \<and> eb \<noteq> AudioProviderOpenError m) \<longrightarrow>
      CreatePCMAudioProvider E f = Some (Inl eb))"
  by (cases ea; cases eb) (auto simp add: CreatePCMAudioProvider_def caught_def)

theorem factory_outcomes_witness:
  "(\<exists>p. CreatePCMAudioProvider env64
           (riff_pcm_header @ [0, 1, 2, 3, 4, 5, 6, 7, 8, 9, 10, 11, 12, 13, 14, 15])
         = Some (Inr p))
   \<and> (\<exists>p. CreatePCMAudioProvider env64
             (w64_pcm_header @ [0, 1, 2, 3, 4, 5, 6, 7, 8, 9, 10, 11, 12, 13, 14, 15])
           = Some (Inr p))
   \<and> CreatePCMAudioProvider env64 w64_header_only
       = Some (Inl (AudioDataNotFoundError
           ''RIFF PCM WAV audio provider: File is not a RIFF file\<newline>Wave64 audio provider: File is too small to be a Wave64 file''))
   \<and> CreatePCMAudioProvider env64 riff_adpcm
       = Some (Inl (AudioProviderOpenError
           ''RIFF PCM WAV audio provider: Can't use file, not PCM encoding\<newline>Wave64 audio provider: File is too small to be a Wave64 file''))
   \<and> CreatePCMAudioProvider env64 riff_truncated
       = Some (Inl (AudioDecodeError ''Attempted to map beyond end of file''))
   \<and> CreatePCMAudioProvider env64 w64_truncated
       = Some (Inl (AudioDecodeError ''Attempted to map beyond end of file''))"
proof -
  let ?wav = "riff_pcm_header @ [0, 1, 2, 3, 4, 5, 6, 7, 8, 9, 10, 11, 12, 13, 14, 15]"
  let ?w64 = "w64_pcm_header @ [0, 1, 2, 3, 4, 5, 6, 7, 8, 9, 10, 11, 12, 13, 14, 15]"
  let ?soft = "AudioDataNotFoundError ''File is not a RIFF file''"
  let ?small = "AudioDataNotFoundError ''File is too small to be a Wave64 file''"
  let ?hard = "AudioProviderOpenError ''Can't use file, not PCM encoding''"
  let ?eof = "AudioDecodeError ''Attempted to map beyond end of file''"
  obtain p where p: "RiffWavPCMAudioProvider env64 ?wav = Some (Inr p)"
    by (simp add: riff_pcm_header_def env64_def pcm_defs riff_defs)
  obtain q where q: "Wave64AudioProvider env64 ?w64 = Some (Inr q)"
    by (simp add: w64_pcm_header_def env64_def pcm_defs w64_defs)
  have rq: "RiffWavPCMAudioProvider env64 ?w64 = Some (Inl ?soft)"
    by (simp add: w64_pcm_header_def env64_def pcm_defs riff_defs w64_defs)
  have r3: "RiffWavPCMAudioProvider env64 w64_header_only = Some (Inl ?soft)"
    by (simp add: w64_header_only_def env64_def pcm_defs riff_defs w64_defs)
  have w3: "Wave64AudioProvider env64 w64_header_only = Some (Inl ?small)"
    by (simp add: w64_header_only_def env64_def pcm_defs w64_defs)
  have r4: "RiffWavPCMAudioProvider env64 riff_adpcm = Some (Inl ?hard)"
    by (simp add: riff_adpcm_def env64_def pcm_defs riff_defs)
  have w4: "Wave64AudioProvider env64 riff_adpcm = Some (Inl ?small)"
    by (simp add: riff_adpcm_def env64_def pcm_defs w64_defs)
  have r5: "RiffWavPCMAudioProvider env64 riff_truncated = Some (Inl ?eof)"
    by (simp add: riff_truncated_def env64_def pcm_defs riff_defs)
  have r6: "RiffWavPCMAudioProvider env64 w64_truncated = Some (Inl ?soft)"
    by (simp add: w64_truncated_def env64_def pcm_defs riff_defs w64_defs)
  have w6: "Wave64AudioProvider env64 w64_truncated = Some (Inl ?eof)"
    by (simp add: w64_truncated_def env64_def pcm_defs w64_defs)
  from p factory_outcomes [where E = env64 and f = ?wav and p = p]
  have 1: "CreatePCMAudioProvider env64 ?wav = Some (Inr p)"
    by simp
  from rq q factory_outcomes [where E = env64 and f = ?w64 and p = q and ea = ?soft
      and ma = "''File is not a RIFF file''"]
  have 2: "CreatePCMAudioProvider env64 ?w64 = Some (Inr q)"
    by simp
  from r3 w3 factory_outcomes [where E = env64 and f = w64_header_only and ea = ?soft
      and ma = "''File is not a RIFF file''" and eb = ?small
      and mb = "''File is too small to be a Wave64 file''"]
  have 3: "CreatePCMAudioProvider env64 w64_header_only
       = Some (Inl (AudioDataNotFoundError
           ''RIFF PCM WAV audio provider: File is not a RIFF file\<newline>Wave64 audio provider: File is too small to be a Wave64 file''))"
    by simp
  from r4 w4 factory_outcomes [where E = env64 and f = riff_adpcm and ea = ?hard
      and ma = "''Can't use file, not PCM encoding''" and eb = ?small
      and mb = "''File is too small to be a Wave64 file''"]
  have 4: "CreatePCMAudioProvider env64 riff_adpcm
       = Some (Inl (AudioProviderOpenError
           ''RIFF PCM WAV audio provider: Can't use file, not PCM encoding\<newline>Wave64 audio provider: File is too small to be a Wave64 file''))"
    by simp
  from r5 factory_outcomes [where E = env64 and f = riff_truncated and ea = ?eof]
  have 5: "CreatePCMAudioProvider env64 riff_truncated = Some (Inl ?eof)"
    by simp
  from r6 w6 factory_outcomes [where E = env64 and f = w64_truncated and ea = ?soft
      and ma = "''File is not a RIFF file''" and eb = ?eof]
  have 6: "CreatePCMAudioProvider env64 w64_truncated = Some (Inl ?eof)"
    by simp
  from 1 2 3 4 5 6 show ?thesis
    by blast
qed

text \<open>
  C5 as stated fails on the RIFF WAV file \<open>riff_adpcm\<close>, whose format chunk is not PCM:
  the RIFF WAV parser fails with the invalid-format error, and the error of the factory
  carries the diagnostic of the Wave64 parser, which was run after it.
\<close>

theorem factory_continues_counterexample:
  "RiffWavPCMAudioProvider env64 riff_adpcm
     = Some (Inl (AudioProviderOpenError ''Can't use file, not PCM encoding''))
   \<and> CreatePCMAudioProvider env64 riff_adpcm
       = Some (Inl (AudioProviderOpenError
           ''RIFF PCM WAV audio provider: Can't use file, not PCM encoding\<newline>Wave64 audio provider: File is too small to be a Wave64 file''))"
  by (simp add: CreatePCMAudioProvider_def caught_def riff_adpcm_def env64_def pcm_defs
      riff_defs w64_defs)

text \<open>
  C5, amended. When the RIFF WAV parser fails with the invalid-format error, the
  factory still runs the Wave64 parser, the last one: a provider it constructs is
  returned, a failure of it with the wrong-container or the invalid-format error makes
  the factory raise the invalid-content error with both diagnostics, and any other
  failure of it is raised as it is.
\<close>

theorem factory_after_invalid_format:
  assumes "RiffWavPCMAudioProvider E f = Some (Inl (AudioProviderOpenError ma))"
  shows "CreatePCMAudioProvider E f =
    (case Wave64AudioProvider E f of
       None \<Rightarrow> None
     | Some (Inr p) \<Rightarrow> Some (Inr p)
     | Some (Inl (AudioDataNotFoundError mb)) \<Rightarrow>
         Some (Inl (AudioProviderOpenError
           (''RIFF PCM WAV audio provider: '' @ ma @ ''\<newline>Wave64 audio provider: '' @ mb)))
     | Some (Inl (AudioProviderOpenError mb)) \<Rightarrow>
         Some (Inl (AudioProviderOpenError
           (''RIFF PCM WAV audio provider: '' @ ma @ ''\<newline>Wave64 audio provider: '' @ mb)))
     | Some (Inl eb) \<Rightarrow> Some (Inl eb))"
  using assms
  by (auto simp add: CreatePCMAudioProvider_def caught_def
      split: option.splits sum.splits error.splits)

theorem factory_after_invalid_format_witness:
  "Wave64AudioProvider env64 riff_adpcm
     = Some (Inl (AudioDataNotFoundError ''File is too small to be a Wave64 file''))
   \<and> CreatePCMAudioProvider env64 riff_adpcm
       = Some (Inl (AudioProviderOpenError
           ''RIFF PCM WAV audio provider: Can't use file, not PCM encoding\<newline>Wave64 audio provider: File is too small to be a Wave64 file''))"
proof -
  have h: "RiffWavPCMAudioProvider env64 riff_adpcm
             = Some (Inl (AudioProviderOpenError ''Can't use file, not PCM encoding''))"
    by (simp add: riff_adpcm_def env64_def pcm_defs riff_defs)
  have w: "Wave64AudioProvider env64 riff_adpcm
             = Some (Inl (AudioDataNotFoundError ''File is too small to be a Wave64 file''))"
    by (simp add: riff_adpcm_def env64_def pcm_defs w64_defs)
  from factory_after_invalid_format [OF h] w show ?thesis
    by simp
qed
subsection \<open>Signed readings of words\<close>

lemma sint_word_of_int_64:
  "- (2 ^ 63) \<le> k \<Longrightarrow> k < 2 ^ 63 \<Longrightarrow> sint (word_of_int k :: 64 word) = k"
  by (simp add: signed_of_int signed_take_bit_int_eq_self_iff)

lemma sint_ucast_32_64: "sint (ucast (x :: 32 word) :: 64 word) = uint x"
proof -
  have "uint x < 2 ^ 32"
    using uint_lt2p [of x] by simp
  moreover have "- (2 ^ 63) \<le> uint x"
    by (rule order_trans [of _ 0]) simp_all
  ultimately show ?thesis
    by (simp add: signed_ucast_eq signed_take_bit_int_eq_self_iff)
qed

lemma sint_ucast_16_32: "sint (ucast (x :: 16 word) :: 32 word) = uint x"
proof -
  have "uint x < 2 ^ 16"
    using uint_lt2p [of x] by simp
  moreover have "- (2 ^ 31) \<le> uint x"
    by (rule order_trans [of _ 0]) simp_all
  ultimately show ?thesis
    by (simp add: signed_ucast_eq signed_take_bit_int_eq_self_iff)
qed

lemma sint_scast_32_64: "sint (scast (x :: 32 word) :: 64 word) = sint x"
  by (simp add: sint_up_scast is_up)

lemma sint_add_64:
  fixes a b :: "64 word"
  assumes "- (2 ^ 63) \<le> sint a + sint b" and "sint a + sint b < 2 ^ 63"
  shows "sint (a + b) = sint a + sint b"
  using assms by (simp add: sint_word_add signed_take_bit_int_eq_self_iff)

lemma and_then_eq_Inr: "(and_then m f = Inr y) = (\<exists>x. m = Inr x \<and> f x = Inr y)"
  by (cases m) (simp_all add: and_then_def)

lemma thrown_eq_Inr [simp]: "thrown r = Inr x \<longleftrightarrow> r = Inr x"
  by (simp add: thrown_def split: sum.splits prod.splits)

subsection \<open>The index is contiguous\<close>

lemma contiguous_append:
  "contiguous s (xs @ [ip])
     = (contiguous s xs \<and> start_sample ip = s + sum_list (map num_samples xs))"
  by (induction xs arbitrary: s) (auto simp add: add.assoc)

lemma contiguous_nth:
  "contiguous s xs \<Longrightarrow> k < length xs \<Longrightarrow>
     start_sample (xs ! k) = s + sum_list (map num_samples (take k xs))"
proof (induction xs arbitrary: s k)
  case Nil
  then show ?case by simp
next
  case (Cons x xs)
  then show ?case
    by (cases k) (auto simp add: add.assoc)
qed

lemma contiguous_sorted:
  assumes "contiguous s xs"
    and "\<forall>ip \<in> set xs. 0 \<le>s num_samples ip"
    and "sint s + (\<Sum>ip\<leftarrow>xs. sint (num_samples ip)) < 2 ^ 63"
  shows "sorted_wrt (\<le>s) (map start_sample xs) \<and> (\<forall>ip \<in> set xs. s \<le>s start_sample ip)"
  using assms
proof (induction xs arbitrary: s)
  case Nil
  then show ?case by simp
next
  case (Cons x xs)
  have n: "0 \<le> sint (num_samples x)"
    using Cons.prems(2) by (simp add: word_sle_eq)
  have tail: "0 \<le> (\<Sum>ip\<leftarrow>xs. sint (num_samples ip))"
    using Cons.prems(2) by (auto intro!: sum_list_nonneg simp add: word_sle_eq)
  have lo: "- (2 ^ 63) \<le> sint s"
    using sint_ge [of s] by simp
  have sx: "start_sample x = s"
    using Cons.prems(1) by simp
  have sum: "sint (s + num_samples x) = sint s + sint (num_samples x)"
    using n tail lo Cons.prems(3) by (intro sint_add_64) auto
  have "sorted_wrt (\<le>s) (map start_sample xs)
        \<and> (\<forall>ip \<in> set xs. s + num_samples x \<le>s start_sample ip)"
    using Cons.prems sum by (intro Cons.IH) (auto simp add: add.assoc)
  moreover have le: "s \<le>s s + num_samples x"
    using sum n by (simp add: word_sle_eq)
  moreover have "s \<le>s start_sample ip" if "s + num_samples x \<le>s start_sample ip" for ip
    using le that by (simp add: word_sle_eq)
  ultimately show ?case
    using sx by auto
qed

lemma EnsureRangeAccessible_keeps:
  assumes "EnsureRangeAccessible E p a b = Inr (p', ptr)"
  shows "index_points p' = index_points p \<and> prov_num_samples p' = prov_num_samples p
         \<and> channels p' = channels p \<and> bytes_per_sample p' = bytes_per_sample p
         \<and> sample_rate p' = sample_rate p \<and> file_bytes p' = file_bytes p
         \<and> file_size p' = file_size p"
  using assms
  by (auto simp add: EnsureRangeAccessible_def Let_def split: if_splits option.splits prod.splits)

lemma riff_fmt_chunk_inv:
  assumes "riff_fmt_chunk E p pos got = Inr (p', got')"
  shows "index_points p' = index_points p \<and> prov_num_samples p' = prov_num_samples p
         \<and> 0 \<le>s channels p'"
proof -
  from assms obtain p2 fmt chans where
    e: "EnsureRangeAccessible E p (ucast pos) 16 = Inr (p2, fmt)"
    and p': "index_points p' = index_points p2" "prov_num_samples p' = prov_num_samples p2"
      "channels p' = ucast (le16 chans)"
    by (auto simp add: riff_fmt_chunk_def and_then_def split: if_splits sum.splits prod.splits)
  have "0 \<le>s (ucast (le16 chans) :: 32 word)"
    by (simp add: word_sle_eq sint_ucast_16_32)
  with p' EnsureRangeAccessible_keeps [OF e] show ?thesis
    by simp
qed

lemma sdiv_nonneg_bounds:
  fixes k l :: int
  assumes "0 \<le> k" and "0 \<le> l"
  shows "0 \<le> k sdiv l \<and> k sdiv l \<le> k"
proof (cases "k = 0 \<or> l = 0")
  case True
  with assms show ?thesis
    by (auto simp add: signed_divide_int_def)
next
  case False
  with assms have "k sdiv l = k div l"
    by (simp add: signed_divide_int_def sgn_if)
  moreover have "0 \<le> k div l"
    using assms False by (simp add: pos_imp_zdiv_nonneg_iff)
  moreover have "k div l \<le> k div 1"
    using assms False by (intro zdiv_mono2) simp_all
  ultimately show ?thesis
    by simp
qed

lemma frames_nonneg:
  fixes x :: "32 word" and c :: "32 word"
  assumes "0 \<le>s c"
  shows "0 \<le>s sdiv64 (ucast x) (scast c)"
proof -
  let ?k = "sint (ucast x :: 64 word)" and ?l = "sint (scast c :: 64 word)"
  have k: "?k = uint x"
    by (simp add: sint_ucast_32_64)
  have l: "0 \<le> ?l"
    using assms by (simp add: sint_scast_32_64 word_sle_eq)
  have k0: "0 \<le> ?k" and k1: "?k < 2 ^ 32"
    using k uint_lt2p [of x] by simp_all
  have q: "0 \<le> ?k sdiv ?l \<and> ?k sdiv ?l \<le> ?k"
    using k0 l sdiv_nonneg_bounds [of ?k ?l] by simp
  then have q0: "0 \<le> ?k sdiv ?l"
    by simp
  from q k1 have q1: "?k sdiv ?l < 2 ^ 63"
    by simp
  from q0 q1 show ?thesis
    by (simp add: sdiv64_def word_sle_eq sint_word_of_int_64)
qed

lemma riff_data_chunk_inv:
  assumes "riff_data_chunk p ch pos got = Inr (p', got')"
    and "index_sums p" and "got \<longrightarrow> 0 \<le>s channels p"
    and "\<forall>ip \<in> set (index_points p). 0 \<le>s num_samples ip"
  shows "index_sums p' \<and> got' = got \<and> channels p' = channels p
         \<and> (\<forall>ip \<in> set (index_points p'). 0 \<le>s num_samples ip)"
  using assms frames_nonneg [of "channels p"]
  by (auto simp add: riff_data_chunk_def and_then_def index_sums_def Let_def contiguous_append
      split: if_splits sum.splits)

lemma riff_chunk_inv:
  assumes c: "riff_chunk E t = Inr t'" and inv: "riff_inv t"
  shows "riff_inv t'"
proof -
  let ?pos = "rs_filepos t + 8"
  let ?got = "rs_got_fmt_header t"
  from c obtain p1 ch type p3 got where
    e: "EnsureRangeAccessible E (rs_prov t) (ucast (rs_filepos t)) 8 = Inr (p1, ch)"
    and m: "(if CheckFourcc type (bytes_of ''fmt '') then riff_fmt_chunk E p1 ?pos ?got
             else if CheckFourcc type (bytes_of ''data'')
             then riff_data_chunk p1 ch ?pos ?got
             else Inr (p1, ?got)) = Inr (p3, got)"
    and t': "rs_prov t' = p3" "rs_got_fmt_header t' = got"
    by (auto simp add: riff_chunk_def and_then_eq_Inr Let_def)
  note k = EnsureRangeAccessible_keeps [OF e]
  from inv k have i1: "index_sums p1" "?got \<longrightarrow> 0 \<le>s channels p1"
    "\<forall>ip \<in> set (index_points p1). 0 \<le>s num_samples ip"
    by (simp_all add: riff_inv_def index_sums_def)
  have "index_sums p3 \<and> (got \<longrightarrow> 0 \<le>s channels p3)
        \<and> (\<forall>ip \<in> set (index_points p3). 0 \<le>s num_samples ip)"
  proof (cases "CheckFourcc type (bytes_of ''fmt '')")
    case True
    with m riff_fmt_chunk_inv [of E p1 ?pos ?got p3 got] i1 show ?thesis
      by (simp add: index_sums_def)
  next
    case False
    show ?thesis
    proof (cases "CheckFourcc type (bytes_of ''data'')")
      case True
      with False m riff_data_chunk_inv [of p1 ch ?pos ?got p3 got] i1 show ?thesis
        by simp
    next
      case no: False
      with False m i1 show ?thesis
        by auto
    qed
  qed
  with t' show ?thesis
    by (simp add: riff_inv_def)
qed

lemma riff_header_inv:
  assumes "riff_header E f = Inr t"
  shows "riff_inv t"
proof -
  from assms obtain p ptr where
    e: "EnsureRangeAccessible E (PCMAudioProvider E f) 0 12 = Inr (p, ptr)"
    and t: "rs_prov t = p \<lparr> prov_num_samples := 0 \<rparr>" "\<not> rs_got_fmt_header t"
    by (auto simp add: riff_header_def and_then_def split: sum.splits if_splits)
  from EnsureRangeAccessible_keeps [OF e] have "index_points p = []"
    by (simp add: PCMAudioProvider_def)
  with t show ?thesis
    by (simp add: riff_inv_def index_sums_def)
qed


lemma riff_loop_rule:
  assumes run: "riff_loop E s = Some y"
    and init: "I s"
    and step: "\<And>t t'. I t \<Longrightarrow> rs_data_left t \<noteq> 0 \<Longrightarrow> riff_chunk E t = Inr t' \<Longrightarrow> I t'"
  shows "\<forall>p. y = Inr p \<longrightarrow> (\<exists>t. I t \<and> rs_data_left t = 0 \<and> p = rs_prov t)"
proof -
  let ?P = "\<lambda>E' t z. E' = E \<longrightarrow> I t \<longrightarrow>
               (\<forall>p. z = Inr p \<longrightarrow> (\<exists>t'. I t' \<and> rs_data_left t' = 0 \<and> p = rs_prov t'))"
  have "?P E s y"
  proof (rule riff_loop.raw_induct [where P = ?P, OF _ run])
    fix loop E' t z
    assume IH: "\<And>a b c. loop a b = Some c \<Longrightarrow> ?P a b c"
      and body: "(if rs_data_left t = 0 then Some (Inr (rs_prov t))
                  else case riff_chunk E' t of Inl e \<Rightarrow> Some (Inl e)
                       | Inr t' \<Rightarrow> loop E' t') = Some z"
    show "?P E' t z"
    proof (intro impI allI)
      fix p
      assume E': "E' = E" and I: "I t" and z: "z = Inr p"
      show "\<exists>t'. I t' \<and> rs_data_left t' = 0 \<and> p = rs_prov t'"
      proof (cases "rs_data_left t = 0")
        case True
        with body z I show ?thesis
          by auto
      next
        case False
        with body z obtain t' where c: "riff_chunk E' t = Inr t'"
          and l: "loop E' t' = Some (Inr p)"
          by (auto split: sum.splits)
        from step [OF I False] c E' have "I t'"
          by simp
        with IH [OF l] E' show ?thesis
          by simp
      qed
    qed
  qed
  with init show ?thesis
    by simp
qed

lemma w64_loop_rule:
  assumes run: "w64_loop E s = Some y"
    and init: "I s"
    and step: "\<And>t t'. I t \<Longrightarrow> ws_data_left t \<noteq> 0 \<Longrightarrow> w64_chunk E t = Inr t' \<Longrightarrow> I t'"
  shows "\<forall>p. y = Inr p \<longrightarrow> (\<exists>t. I t \<and> ws_data_left t = 0 \<and> p = ws_prov t)"
proof -
  let ?P = "\<lambda>E' t z. E' = E \<longrightarrow> I t \<longrightarrow>
               (\<forall>p. z = Inr p \<longrightarrow> (\<exists>t'. I t' \<and> ws_data_left t' = 0 \<and> p = ws_prov t'))"
  have "?P E s y"
  proof (rule w64_loop.raw_induct [where P = ?P, OF _ run])
    fix loop E' t z
    assume IH: "\<And>a b c. loop a b = Some c \<Longrightarrow> ?P a b c"
      and body: "(if ws_data_left t = 0 then Some (Inr (ws_prov t))
                  else case w64_chunk E' t of Inl e \<Rightarrow> Some (Inl e)
                       | Inr t' \<Rightarrow> loop E' t') = Some z"
    show "?P E' t z"
    proof (intro impI allI)
      fix p
      assume E': "E' = E" and I: "I t" and z: "z = Inr p"
      show "\<exists>t'. I t' \<and> ws_data_left t' = 0 \<and> p = ws_prov t'"
      proof (cases "ws_data_left t = 0")
        case True
        with body z I show ?thesis
          by auto
      next
        case False
        with body z obtain t' where c: "w64_chunk E' t = Inr t'"
          and l: "loop E' t' = Some (Inr p)"
          by (auto split: sum.splits)
        from step [OF I False] c E' have "I t'"
          by simp
        with IH [OF l] E' show ?thesis
          by simp
      qed
    qed
  qed
  with init show ?thesis
    by simp
qed

lemma riff_accepted_inv:
  assumes "RiffWavPCMAudioProvider E f = Some (Inr p)"
  shows "index_sums p \<and> (\<forall>ip \<in> set (index_points p). 0 \<le>s num_samples ip)"
proof -
  from assms obtain s where h: "riff_header E f = Inr s" and l: "riff_loop E s = Some (Inr p)"
    by (auto simp add: RiffWavPCMAudioProvider_def split: sum.splits)
  have "\<forall>q. (Inr p :: error + provider) = Inr q \<longrightarrow> (\<exists>t. riff_inv t \<and> rs_data_left t = 0 \<and> q = rs_prov t)"
  proof (rule riff_loop_rule [OF l])
    show "riff_inv s"
      by (rule riff_header_inv [OF h])
  next
    fix t t'
    assume "riff_inv t" and "riff_chunk E t = Inr t'"
    then show "riff_inv t'"
      using riff_chunk_inv by blast
  qed
  then
  obtain t where "riff_inv t" and "p = rs_prov t"
    by auto
  then show ?thesis
    by (simp add: riff_inv_def)
qed

lemma w64_fmt_chunk_index:
  assumes "w64_fmt_chunk E p pos got = Inr (p', got')"
  shows "index_points p' = index_points p \<and> prov_num_samples p' = prov_num_samples p"
proof -
  from assms obtain p2 fmt where
    e: "EnsureRangeAccessible E p pos sizeof_FormatChunk = Inr (p2, fmt)"
    and p': "index_points p' = index_points p2" "prov_num_samples p' = prov_num_samples p2"
    by (auto simp add: w64_fmt_chunk_def and_then_eq_Inr split: if_splits)
  with EnsureRangeAccessible_keeps [OF e] show ?thesis
    by simp
qed

lemma w64_data_chunk_index:
  assumes "w64_data_chunk p pos sz got = Inr (p', got')" and "index_sums p"
  shows "index_sums p'"
  using assms
  by (auto simp add: w64_data_chunk_def index_sums_def Let_def contiguous_append
      split: if_splits)

lemma w64_chunk_index:
  assumes c: "w64_chunk E t = Inr t'" and inv: "index_sums (ws_prov t)"
  shows "index_sums (ws_prov t')"
proof -
  let ?pos = "ws_filepos t"
  let ?got = "ws_got_fmt_header t"
  from c obtain p1 g p2 sp guid sz p3 got where
    e1: "EnsureRangeAccessible E (ws_prov t) ?pos 16 = Inr (p1, g)"
    and e2: "EnsureRangeAccessible E p1 (?pos + 16) 8 = Inr (p2, sp)"
    and m: "(if CheckGuid guid w64Guidfmt then w64_fmt_chunk E p2 ?pos ?got
             else if CheckGuid guid w64Guiddata then w64_data_chunk p2 ?pos sz ?got
             else Inr (p2, ?got)) = Inr (p3, got)"
    and t': "ws_prov t' = p3"
    by (auto simp add: w64_chunk_def and_then_eq_Inr Let_def)
  from inv EnsureRangeAccessible_keeps [OF e1] EnsureRangeAccessible_keeps [OF e2]
  have i2: "index_sums p2"
    by (simp add: index_sums_def)
  have "index_sums p3"
  proof (cases "CheckGuid guid w64Guidfmt")
    case True
    with m w64_fmt_chunk_index [of E p2 ?pos ?got p3 got] i2 show ?thesis
      by (simp add: index_sums_def)
  next
    case False
    show ?thesis
    proof (cases "CheckGuid guid w64Guiddata")
      case True
      with False m w64_data_chunk_index [of p2 ?pos sz ?got p3 got] i2 show ?thesis
        by simp
    next
      case no: False
      with False m i2 show ?thesis
        by auto
    qed
  qed
  with t' show ?thesis
    by simp
qed

lemma w64_header_index:
  assumes "w64_header E f = Inr t"
  shows "index_sums (ws_prov t)"
proof -
  from assms obtain p ptr where
    e: "EnsureRangeAccessible E (PCMAudioProvider E f) 0 sizeof_RiffChunk = Inr (p, ptr)"
    and t: "ws_prov t = p \<lparr> prov_num_samples := 0 \<rparr>"
    by (auto simp add: w64_header_def and_then_eq_Inr split: if_splits)
  from EnsureRangeAccessible_keeps [OF e] have "index_points p = []"
    by (simp add: PCMAudioProvider_def)
  with t show ?thesis
    by (simp add: index_sums_def)
qed

lemma w64_accepted_inv:
  assumes "Wave64AudioProvider E f = Some (Inr p)"
  shows "index_sums p"
proof -
  from assms obtain s where h: "w64_header E f = Inr s" and l: "w64_loop E s = Some (Inr p)"
    by (auto simp add: Wave64AudioProvider_def split: sum.splits)
  have "\<forall>q. (Inr p :: error + provider) = Inr q \<longrightarrow>
          (\<exists>t :: w64_state. index_sums (ws_prov t) \<and> ws_data_left t = 0 \<and> q = ws_prov t)"
  proof (rule w64_loop_rule [OF l, where I = "\<lambda>t. index_sums (ws_prov t)"])
    show "index_sums (ws_prov s)"
      by (rule w64_header_index [OF h])
  next
    fix t t'
    assume "index_sums (ws_prov t)" and "w64_chunk E t = Inr t'"
    then show "index_sums (ws_prov t')"
      using w64_chunk_index by blast
  qed
  then show ?thesis
    by auto
qed

text \<open>
  C2 as stated fails on the Wave64 file \<open>w64_backwards\<close>. Its data chunk at 136 declares
  the size \<open>2^64 - 40\<close>, which the parser reads as \<open>- 40\<close> frames and which moves the
  cursor back to the data chunk at 96; the file is accepted, and the two index points
  start at samples 0 and \<open>- 40\<close>: the start samples decrease.
\<close>

theorem index_order_counterexample:
  "Wave64AudioProvider env64 w64_backwards
     = Some (Inr \<lparr> file_bytes = w64_backwards, file_size = 160, float_samples = False,
                   sample_rate = 8000, channels = 1, bytes_per_sample = 1,
                   prov_num_samples = - 8,
                   index_points =
                     [\<lparr> start_byte = 136, start_sample = 0, num_samples = - 40 \<rparr>,
                      \<lparr> start_byte = 96, start_sample = - 40, num_samples = 32 \<rparr>],
                   mapping_start = 0, region = Some 160, mappings_made = 1 \<rparr>)
   \<and> \<not> (0 :: int64) \<le>s - 40"
  by (simp add: w64_backwards_def env64_def pcm_defs w64_defs)

text \<open>
  C2, amended. For every file that either parser accepts, each index point starts at
  the sum (in 64-bit arithmetic) of the sample counts of the points before it, and the
  sample count of the provider is the sum of the sample counts of all index points. The
  start samples are in non-decreasing order whenever no index point has a negative
  sample count and the counts add up to less than \<open>2^63\<close>; the index points of an
  accepted RIFF WAV file never have a negative sample count.
\<close>

theorem index_contiguous:
  assumes "RiffWavPCMAudioProvider E f = Some (Inr p)
           \<or> Wave64AudioProvider E f = Some (Inr p)"
  shows "(\<forall>k < length (index_points p).
            start_sample (index_points p ! k)
              = sum_list (map num_samples (take k (index_points p))))
         \<and> prov_num_samples p = sum_list (map num_samples (index_points p))
         \<and> ((\<forall>ip \<in> set (index_points p). 0 \<le>s num_samples ip)
              \<and> (\<Sum>ip\<leftarrow>index_points p. sint (num_samples ip)) < 2 ^ 63 \<longrightarrow>
            sorted_wrt (\<le>s) (map start_sample (index_points p)))
         \<and> (RiffWavPCMAudioProvider E f = Some (Inr p) \<longrightarrow>
            (\<forall>ip \<in> set (index_points p). 0 \<le>s num_samples ip))"
proof -
  from assms riff_accepted_inv [of E f p] w64_accepted_inv [of E f p]
  have s: "index_sums p"
    by blast
  then have c: "contiguous 0 (index_points p)"
    by (simp add: index_sums_def)
  have 1: "\<forall>k < length (index_points p).
            start_sample (index_points p ! k)
              = sum_list (map num_samples (take k (index_points p)))"
    using contiguous_nth [OF c] by simp
  have 3: "sorted_wrt (\<le>s) (map start_sample (index_points p))"
    if "\<forall>ip \<in> set (index_points p). 0 \<le>s num_samples ip"
      and "(\<Sum>ip\<leftarrow>index_points p. sint (num_samples ip)) < 2 ^ 63"
    using contiguous_sorted [OF c] that by simp
  from 1 3 s riff_accepted_inv [of E f p] show ?thesis
    by (simp add: index_sums_def)
qed

theorem index_contiguous_witness:
  "\<exists>p. RiffWavPCMAudioProvider env64 riff_two_chunks = Some (Inr p)
     \<and> index_points p = [\<lparr> start_byte = 44, start_sample = 0, num_samples = 2 \<rparr>,
                         \<lparr> start_byte = 60, start_sample = 2, num_samples = 2 \<rparr>]
     \<and> (\<forall>k < length (index_points p).
            start_sample (index_points p ! k)
              = sum_list (map num_samples (take k (index_points p))))
     \<and> prov_num_samples p = sum_list (map num_samples (index_points p))
     \<and> sorted_wrt (\<le>s) (map start_sample (index_points p))"
proof -
  obtain p where p: "RiffWavPCMAudioProvider env64 riff_two_chunks = Some (Inr p)"
    and i: "index_points p = [\<lparr> start_byte = 44, start_sample = 0, num_samples = 2 \<rparr>,
                              \<lparr> start_byte = 60, start_sample = 2, num_samples = 2 \<rparr>]"
    by (simp add: riff_two_chunks_def env64_def pcm_defs riff_defs)
  have n: "(\<forall>ip \<in> set (index_points p). 0 \<le>s num_samples ip)
           \<and> (\<Sum>ip\<leftarrow>index_points p. sint (num_samples ip)) < 2 ^ 63"
    by (simp add: i word_sle_eq)
  from index_contiguous [OF disjI1 [OF p]] n p i show ?thesis
    by blast
qed


subsection \<open>Reading samples\<close>

lemma sint_eqI64:
  fixes w :: "64 word"
  assumes "w = word_of_int k" and "- (2 ^ 63) \<le> k" and "k < 2 ^ 63"
  shows "sint w = k"
  using assms by (simp add: sint_word_of_int_64)

lemma uint_eq_sint_nonneg:
  fixes w :: "64 word"
  assumes "0 \<le> sint w"
  shows "uint w = sint w"
proof -
  have "sint w < 2 ^ 63"
    using sint_lt [of w] by simp
  then have "take_bit 64 (sint w) = sint w"
    using assms by (intro take_bit_int_eq_self) simp_all
  moreover have "uint (word_of_int (sint w) :: 64 word) = take_bit 64 (sint w)"
    by (simp only: uint_word_of_int_eq) simp
  ultimately show ?thesis
    by simp
qed

lemma and_not_split:
  fixes w m :: "64 word"
  shows "w - (w AND m) = w AND NOT m"
proof -
  have "w - (w AND m) = w AND NOT (w AND m)"
    by (rule disjunctive_diff_eq_and_not) (simp add: bit_eq_iff bit_simps)
  also have "\<dots> = w AND NOT m"
    by (auto simp add: bit_eq_iff bit_simps)
  finally show ?thesis .
qed

text \<open>Rounding down to a multiple of 1 MiB.\<close>

lemma round_down_MiB:
  fixes w :: "64 word"
  shows "uint (w AND NOT 0xFFFFF) = uint w - uint (w AND 0xFFFFF)"
    and "uint (w AND 0xFFFFF) \<le> 0xFFFFF"
    and "w - (w AND NOT 0xFFFFF) = w AND 0xFFFFF"
proof -
  have le: "w AND 0xFFFFF \<le> w"
    by (rule word_and_le2)
  have "uint (w - (w AND 0xFFFFF)) = uint w - uint (w AND 0xFFFFF)"
    using le by (simp add: uint_minus_simple_alt)
  then show "uint (w AND NOT 0xFFFFF) = uint w - uint (w AND 0xFFFFF)"
    by (simp add: and_not_split)
  have "w AND 0xFFFFF \<le> 0xFFFFF"
    by (rule word_and_le1)
  then show "uint (w AND 0xFFFFF) \<le> 0xFFFFF"
    by (simp add: word_le_def)
  have "w - (w AND NOT 0xFFFFF) = w - (w - (w AND 0xFFFFF))"
    by (simp add: and_not_split)
  then show "w - (w AND NOT 0xFFFFF) = w AND 0xFFFFF"
    by simp
qed

lemma uint_ucast_64_32:
  fixes w :: "64 word"
  assumes "uint w < 2 ^ 32"
  shows "uint (ucast w :: 32 word) = uint w"
  using assms by (simp add: unsigned_ucast_eq take_bit_int_eq_self)

lemma uint_ucast_32_64: "uint (ucast (w :: 32 word) :: 64 word) = uint w"
  by (simp add: uint_up_ucast is_up)

lemma ucast_64_32_64:
  fixes w :: "64 word"
  assumes "uint w < 2 ^ 32"
  shows "(ucast (ucast w :: 32 word) :: 64 word) = w"
  using assms
  by (intro word_uint_eqI) (simp add: uint_ucast_32_64 uint_ucast_64_32)


lemma uint_min_word: "uint (min a b) = min (uint a) (uint b)"
  by (simp add: min_def word_le_def)

lemma uint_max_word: "uint (max a b) = max (uint a) (uint b)"
  by (simp add: max_def word_le_def)

lemma file_size_sint:
  assumes "mapper_ready E p"
  shows "sint (file_size p) = int (length (file_bytes p))"
proof -
  from assms have f: "file_size p = word_of_int (int (length (file_bytes p)))"
    by (simp add: mapper_ready_def)
  from assms have l: "int (length (file_bytes p)) < 2 ^ 63"
    by (simp add: mapper_ready_def split: if_splits)
  show ?thesis
    by (rule sint_eqI64 [OF f _ l]) simp
qed

lemma uint_add_64:
  fixes a b :: "64 word"
  assumes "uint a + uint b < 2 ^ 64"
  shows "uint (a + b) = uint a + uint b"
  using uint_add_lem [of a b] assms by simp

text \<open>The view that a 32-bit build maps for a range inside the file.\<close>

lemma view32:
  fixes off len fsz ms l1 :: "64 word" and l2 :: "32 word"
  assumes ms_def: "ms = off AND NOT 0xFFFFF"
    and l1_def: "l1 = len + ucast (ucast (off - ms) :: 32 word)"
    and l2_def: "l2 = min (max 0x1000000 (ucast ((l1 + 0xFFFFF) AND NOT 0xFFFFF)))
                         (ucast (fsz - ms))"
    and o: "0 \<le> sint off" and l: "0 \<le> sint len"
    and b: "sint off + sint len \<le> uint fsz" and f: "uint fsz < 2 ^ 32 - 2 ^ 20"
  shows "0 \<le> sint ms" and "sint ms \<le> sint off"
    and "sint ms + uint l2 \<le> uint fsz"
    and "sint off + sint len \<le> sint ms + uint l2"
    and "uint l2 = 0 \<Longrightarrow> uint (ucast (ucast (fsz - ms) :: 32 word) :: 64 word) = 0"
proof -
  have uo: "uint off = sint off" and ul: "uint len = sint len"
    using o l by (simp_all add: uint_eq_sint_nonneg)
  define r where "r = off AND 0xFFFFF"
  have ums: "uint ms = uint off - uint r" and r: "uint r \<le> 0xFFFFF" and omr: "off - ms = r"
    unfolding ms_def r_def by (rule round_down_MiB)+
  have r0: "0 \<le> uint r"
    by simp
  have rle: "uint r \<le> uint off"
    unfolding r_def using word_and_le2 [of off "0xFFFFF"] by (simp add: word_le_def)
  have msoff: "uint ms \<le> uint off"
    using ums r0 by linarith
  have ms63: "uint ms < 2 ^ 63"
    using msoff uo b f l by simp
  have sms: "sint ms = uint ms"
  proof -
    have "- (2 ^ 63) \<le> uint ms"
      by (rule order_trans [of _ 0]) simp_all
    then show ?thesis
      by (intro sint_eqI64 [OF _ _ ms63]) simp_all
  qed
  show "0 \<le> sint ms"
    using sms by simp
  show "sint ms \<le> sint off"
    using sms msoff uo by simp
  have rr: "(ucast (ucast r :: 32 word) :: 64 word) = r"
    using r by (intro ucast_64_32_64) simp
  have l1: "l1 = len + r"
    by (simp add: l1_def omr rr)
  have ul1: "uint l1 = sint len + uint r"
  proof -
    have "uint len + uint r < 2 ^ 64"
      using ul b f o r by simp
    then have "uint (len + r) = uint len + uint r"
      by (rule uint_add_64)
    then show ?thesis
      by (simp add: l1 ul)
  qed
  have l1le: "uint l1 \<le> uint fsz - uint ms"
    using ul1 ums uo b by simp
  define w where "w = l1 + 0xFFFFF"
  have uw: "uint w = uint l1 + 0xFFFFF"
  proof -
    have "uint l1 + uint (0xFFFFF :: 64 word) < 2 ^ 64"
      using l1le f ums rle by simp
    then have "uint (l1 + 0xFFFFF) = uint l1 + uint (0xFFFFF :: 64 word)"
      by (rule uint_add_64)
    then show ?thesis
      by (simp add: w_def)
  qed
  define rd where "rd = w AND NOT 0xFFFFF"
  have urd: "uint rd = uint w - uint (w AND 0xFFFFF)" and wr: "uint (w AND 0xFFFFF) \<le> 0xFFFFF"
    unfolding rd_def by (rule round_down_MiB)+
  have rd_lo: "uint l1 \<le> uint rd"
    using urd wr uw by simp
  have rd_hi: "uint rd < 2 ^ 32"
  proof -
    have "uint rd \<le> uint w"
      using urd by simp
    also have "\<dots> < 2 ^ 32"
      using uw l1le f ums rle by simp
    finally show ?thesis .
  qed
  have urd32: "uint (ucast rd :: 32 word) = uint rd"
    using rd_hi by (rule uint_ucast_64_32)
  have msle: "ms \<le> fsz"
    using msoff uo b l by (simp add: word_le_def)
  have urest: "uint (fsz - ms) = uint fsz - uint ms"
    using msle by (simp add: uint_minus_simple_alt)
  have rest32: "uint (fsz - ms) < 2 ^ 32"
    using urest f ums rle by simp
  have urest32: "uint (ucast (fsz - ms) :: 32 word) = uint fsz - uint ms"
    using uint_ucast_64_32 [OF rest32] urest by simp
  have ul2: "uint l2 = min (max 0x1000000 (uint rd)) (uint fsz - uint ms)"
    unfolding l2_def w_def [symmetric] rd_def [symmetric]
    by (simp add: uint_min_word uint_max_word urd32 urest32)
  show "sint ms + uint l2 \<le> uint fsz"
    using ul2 sms by simp
  show "sint off + sint len \<le> sint ms + uint l2"
    using ul2 sms ums uo ul1 rd_lo l1le by simp
  show "uint (ucast (ucast (fsz - ms) :: 32 word) :: 64 word) = 0" if "uint l2 = 0"
  proof -
    from that ul2 have "uint fsz - uint ms = 0"
      by (simp add: min_def max_def split: if_splits)
    then show ?thesis
      by (simp add: uint_ucast_32_64 urest32)
  qed
qed


lemma map_and_read:
  assumes r: "mapper_ready E p"
    and o: "0 \<le> sint off" and l: "0 \<le> sint len"
    and b: "sint off + sint len \<le> int (length (file_bytes p))"
  shows "\<exists>p'. EnsureRangeAccessible E p off len
                = Inr (p', \<lparr> p_region = mappings_made p', p_offset = sint off \<rparr>)
              \<and> mapper_ready E p'
              \<and> file_bytes p' = file_bytes p \<and> index_points p' = index_points p
              \<and> channels p' = channels p \<and> bytes_per_sample p' = bytes_per_sample p
              \<and> deref p' \<lparr> p_region = mappings_made p', p_offset = sint off \<rparr> 0
                   (nat (sint len))
                  = Inr (take (nat (sint len)) (drop (nat (sint off)) (file_bytes p)))"
proof -
  define L where "L = int (length (file_bytes p))"
  note fs = file_size_sint [OF r, folded L_def]
  have ufs: "uint (file_size p) = L"
    using fs uint_eq_sint_nonneg [of "file_size p"] by (simp add: L_def)
  have len63: "L < 2 ^ 63"
    using r by (simp add: mapper_ready_def L_def split: if_splits)
  have nofail: "\<And>x y. \<not> map_fails E x y"
    using r by (simp add: mapper_ready_def)
  have fsz: "file_size p = of_nat (length (file_bytes p))"
    using r by (simp add: mapper_ready_def)
  have s: "sint (off + len) = sint off + sint len"
    using o l b len63 by (intro sint_add_64) (auto simp add: L_def)
  have a: "\<not> file_size p <s off + len"
    using s b fs by (simp add: word_sless_alt L_def)
  define ptr where "ptr q = \<lparr> p_region = mappings_made q, p_offset = sint off \<rparr>" for q :: provider
  \<comment> \<open>a provider whose region holds the range gives the bytes\<close>
  have read: "deref q (ptr q) 0 (nat (sint len))
                = Inr (take (nat (sint len)) (drop (nat (sint off)) (file_bytes p)))"
    if "region q = Some sz" "file_bytes q = file_bytes p"
      "sint (mapping_start q) \<le> sint off"
      "sint off + sint len \<le> sint (mapping_start q) + uint sz" for q sz
    using that o l b by (simp add: deref_def ptr_def)
  \<comment> \<open>mapping a new view\<close>
  have fresh: ?thesis
    if miss: "\<not> (case region p of None \<Rightarrow> False
                    | Some sz \<Rightarrow> mapping_start p \<le>s off
                        \<and> within_region E (off + len) (mapping_start p + sz))"
  proof (cases "size_t_bytes E = 4")
    case False
    define q where "q = p \<lparr> mapping_start := 0, region := Some (file_size p),
                             mappings_made := Suc (mappings_made p) \<rparr>"
    have e: "EnsureRangeAccessible E p off len = Inr (q, ptr q)"
      using False nofail a miss
      by (simp add: EnsureRangeAccessible_def mapped_region_def to_size_t_def q_def ptr_def
            Let_def)
    have rq: "mapper_ready E q"
      using r False ufs by (simp add: mapper_ready_def q_def L_def)
    have "deref q (ptr q) 0 (nat (sint len))
            = Inr (take (nat (sint len)) (drop (nat (sint off)) (file_bytes p)))"
      using o b ufs by (intro read [of q "file_size p"]) (simp_all add: q_def L_def)
    with e rq show ?thesis
      by (intro exI [of _ q]) (simp add: ptr_def q_def)
  next
    case True
    define ms where "ms = off AND NOT 0xFFFFF"
    define l1 where "l1 = len + ucast (ucast (off - ms) :: 32 word)"
    define l2 where "l2 = min (max (0x1000000 :: 32 word) (ucast ((l1 + 0xFFFFF) AND NOT 0xFFFFF)))
                              (ucast (file_size p - ms))"
    have f32: "uint (file_size p) < 2 ^ 32 - 2 ^ 20"
      using r True ufs by (simp add: mapper_ready_def L_def)
    have b': "sint off + sint len \<le> uint (file_size p)"
      using b ufs by (simp add: L_def)
    note v = view32 [OF ms_def l1_def l2_def o l b' f32]
    define sz :: "64 word"
      where "sz = (if (ucast l2 :: 64 word) = 0 then to_size_t E (file_size p - ms) else ucast l2)"
    have usz: "uint sz = uint l2"
    proof (cases "(ucast l2 :: 64 word) = 0")
      case z: True
      then have "uint (ucast l2 :: 64 word) = 0"
        by simp
      then have z2: "uint l2 = 0"
        by (simp add: uint_ucast_32_64)
      from v(5) [OF z2] show ?thesis
        using z z2 True by (simp add: sz_def to_size_t_def)
    next
      case False
      then show ?thesis
        by (simp add: sz_def uint_ucast_32_64)
    qed
    define q where "q = p \<lparr> mapping_start := ms, region := Some sz,
                             mappings_made := Suc (mappings_made p) \<rparr>"
    have e: "EnsureRangeAccessible E p off len = Inr (q, ptr q)"
      using True nofail a miss
      by (simp add: EnsureRangeAccessible_def mapped_region_def q_def ptr_def sz_def l2_def
            l1_def ms_def Let_def)
    have rq: "mapper_ready E q"
      using r True v(1,3) usz ufs by (simp add: mapper_ready_def q_def L_def)
    have "deref q (ptr q) 0 (nat (sint len))
            = Inr (take (nat (sint len)) (drop (nat (sint off)) (file_bytes p)))"
      using v(2,4) usz by (intro read [of q sz]) (simp_all add: q_def)
    with e rq show ?thesis
      by (intro exI [of _ q]) (simp add: ptr_def q_def)
  qed
  show ?thesis
  proof (cases "region p")
    case None
    show ?thesis
      by (rule fresh) (simp add: None)
  next
    case (Some sz)
    with r have inv: "0 \<le> sint (mapping_start p)" "sint (mapping_start p) + uint sz \<le> L"
      by (simp_all add: mapper_ready_def L_def)
    have usz63: "uint sz < 2 ^ 63"
      using inv len63 by linarith
    have ssz: "sint sz = uint sz"
    proof -
      have "- (2 ^ 63) \<le> uint sz"
        by (rule order_trans [of _ 0]) simp_all
      then show ?thesis
        by (intro sint_eqI64 [OF _ _ usz63]) simp_all
    qed
    have e1: "sint (mapping_start p + sz) = sint (mapping_start p) + uint sz"
    proof -
      have "0 \<le> sint (mapping_start p) + sint sz"
        using inv(1) uint_ge_0 [of sz] unfolding ssz by linarith
      moreover have "sint (mapping_start p) + sint sz < 2 ^ 63"
        using inv(2) len63 unfolding ssz by linarith
      ultimately have "sint (mapping_start p + sz) = sint (mapping_start p) + sint sz"
        by (intro sint_add_64) auto
      then show ?thesis
        by (simp add: ssz)
    qed
    have e2: "uint (mapping_start p + sz) = sint (mapping_start p) + uint sz"
      using uint_eq_sint_nonneg [of "mapping_start p + sz"] e1 inv by simp
    have e3: "uint (off + len) = sint off + sint len"
      using uint_eq_sint_nonneg [of "off + len"] s o l by simp
    define hit where "hit = (mapping_start p \<le>s off
                             \<and> within_region E (off + len) (mapping_start p + sz))"
    have hit: "hit \<longleftrightarrow> sint (mapping_start p) \<le> sint off
                         \<and> sint off + sint len \<le> sint (mapping_start p) + uint sz"
      by (simp add: hit_def within_region_def word_sle_eq word_le_def e1 e2 e3 s)
    show ?thesis
    proof (cases hit)
      case True
      then have e: "EnsureRangeAccessible E p off len = Inr (p, ptr p)"
        using a Some by (simp add: EnsureRangeAccessible_def hit_def ptr_def)
      have "deref p (ptr p) 0 (nat (sint len))
              = Inr (take (nat (sint len)) (drop (nat (sint off)) (file_bytes p)))"
        using True hit Some by (intro read [of p sz]) simp_all
      with e r show ?thesis
        by (intro exI [of _ p]) (simp add: ptr_def)
    next
      case False
      show ?thesis
        by (rule fresh) (use False in \<open>simp add: Some hit_def\<close>)
    qed
  qed
qed

lemma sint_sub_64:
  fixes a b :: "64 word"
  assumes "- (2 ^ 63) \<le> sint a - sint b" and "sint a - sint b < 2 ^ 63"
  shows "sint (a - b) = sint a - sint b"
  using assms by (simp add: sint_word_ariths signed_take_bit_int_eq_self_iff)

lemma sint_frames_to_bytes:
  fixes x :: "64 word" and bps ch :: "32 word"
  assumes "0 \<le> sint x * (sint bps * sint ch)" and "sint x * (sint bps * sint ch) < 2 ^ 63"
  shows "sint (x * scast bps * scast ch) = sint x * (sint bps * sint ch)"
proof (rule sint_eqI64)
  have "word_of_int (sint x * (sint bps * sint ch))
          = (word_of_int (sint x) :: 64 word)
              * (word_of_int (sint bps) * word_of_int (sint ch))"
    by (simp only: of_int_mult)
  also have "\<dots> = x * (scast bps * scast ch)"
    by (simp only: scast_eq [symmetric] scast_id)
  finally show "x * scast bps * scast ch = word_of_int (sint x * (sint bps * sint ch))"
    by (simp only: mult.assoc)
  show "- (2 ^ 63) \<le> sint x * (sint bps * sint ch)"
    using assms(1) by simp
  show "sint x * (sint bps * sint ch) < 2 ^ 63"
    by (rule assms(2))
qed

lemma point_end:
  assumes "point_ok p ip"
  shows "sint (start_sample ip + num_samples ip) = sint (start_sample ip) + sint (num_samples ip)"
  using assms by (intro sint_add_64) (auto simp add: point_ok_def)

lemma fill_step_skip:
  assumes "point_ok (fs_prov s) ip"
    and "\<not> (sint (start_sample ip) \<le> sint (fs_start s)
           \<and> sint (fs_start s) < sint (start_sample ip) + sint (num_samples ip))"
  shows "fill_step E ip s = Inr s"
  using assms point_end [OF assms(1)]
  by (auto simp add: fill_step_def Let_def word_sle_eq word_sless_alt)

lemma fill_step_copy:
  fixes s :: fill_state and ip :: IndexPoint
  defines "p \<equiv> fs_prov s"
  defines "S \<equiv> sint (fs_start s)" and "C \<equiv> sint (fs_count s)"
  defines "ss \<equiv> sint (start_sample ip)" and "n \<equiv> sint (num_samples ip)"
  defines "sb \<equiv> sint (start_byte ip)"
  defines "fb \<equiv> frame_size (fs_prov s)"
  defines "m \<equiv> min C (n - (S - ss))"
  assumes ready: "mapper_ready E p"
    and fmt: "0 \<le> sint (bytes_per_sample p)" "0 \<le> sint (channels p)"
    and pt: "point_ok p ip"
    and inside: "ss \<le> S" "S < ss + n"
    and cnt: "0 < C"
    and room: "0 \<le> fs_buf s" "fs_buf s + m * fb \<le> int (length (fs_dst s))"
  shows "\<exists>s'. fill_step E ip s = Inr s'
           \<and> mapper_ready E (fs_prov s')
           \<and> file_bytes (fs_prov s') = file_bytes p
           \<and> channels (fs_prov s') = channels p
           \<and> bytes_per_sample (fs_prov s') = bytes_per_sample p
           \<and> fs_buf s' = fs_buf s + m * fb
           \<and> sint (fs_start s') = S + m
           \<and> sint (fs_count s') = C - m
           \<and> fs_dst s' = take (nat (fs_buf s)) (fs_dst s)
                           @ take (nat (m * fb)) (drop (nat (sb + (S - ss) * fb)) (file_bytes p))
                           @ drop (nat (fs_buf s + m * fb)) (fs_dst s)"
proof -
  have fb0: "0 \<le> fb"
    using fmt by (simp add: fb_def frame_size_def p_def)
  have len63: "int (length (file_bytes p)) < 2 ^ 63"
    using ready by (simp add: mapper_ready_def split: if_splits)
  have pk: "0 \<le> n" "0 \<le> sb" "0 \<le> ss" "ss + n < 2 ^ 63"
    "sb + n * fb \<le> int (length (file_bytes p))"
    using pt by (simp_all add: point_ok_def n_def sb_def ss_def fb_def p_def)
  have m1: "1 \<le> m" and mn: "m \<le> n - (S - ss)" and mC: "m \<le> C"
    using inside cnt by (simp_all add: m_def)
  have Slo: "- (2 ^ 63) \<le> S" and Shi: "S < 2 ^ 63"
    using sint_ge [of "fs_start s"] sint_lt [of "fs_start s"] by (simp_all add: S_def)
  have Clo: "- (2 ^ 63) \<le> C" and Chi: "C < 2 ^ 63"
    using sint_ge [of "fs_count s"] sint_lt [of "fs_count s"] by (simp_all add: C_def)
  \<comment> \<open>the condition of the \<^verbatim>\<open>if\<close>\<close>
  have cond: "start_sample ip \<le>s fs_start s
              \<and> fs_start s <s start_sample ip + num_samples ip"
    using inside point_end [OF pt]
    by (simp add: word_sle_eq word_sless_alt S_def ss_def n_def)
  \<comment> \<open>\<^verbatim>\<open>samples_can_do\<close>\<close>
  let ?scd0 = "num_samples ip - fs_start s + start_sample ip"
  have d1: "sint (num_samples ip - fs_start s) = n - S"
    unfolding n_def S_def
    using pk inside Slo Shi by (intro sint_sub_64) (auto simp add: n_def S_def ss_def)
  have scd0: "sint ?scd0 = n - S + ss"
  proof -
    have "sint ?scd0 = sint (num_samples ip - fs_start s) + sint (start_sample ip)"
      using d1 pk inside by (intro sint_add_64) (auto simp add: ss_def)
    with d1 show ?thesis
      by (simp add: ss_def)
  qed
  let ?scd = "if fs_count s <s ?scd0 then fs_count s else ?scd0"
  have scd: "sint ?scd = m"
    using scd0 by (auto simp add: word_sless_alt m_def C_def min_def)
  \<comment> \<open>the byte count and the byte offset\<close>
  let ?nbytes = "?scd * scast (bytes_per_sample p) * scast (channels p)"
  have mfb: "0 \<le> m * fb" "m * fb \<le> n * fb"
    using m1 mn inside fb0 by (auto intro!: mult_right_mono)
  have nb: "sint ?nbytes = m * fb"
    using sint_frames_to_bytes [of ?scd "bytes_per_sample p" "channels p"] scd mfb pk len63
    by (simp add: fb_def frame_size_def p_def)
  let ?d = "fs_start s - start_sample ip"
  have d: "sint ?d = S - ss"
    unfolding S_def ss_def
    using pk inside Shi by (intro sint_sub_64) (auto simp add: S_def ss_def)
  have dfb: "0 \<le> (S - ss) * fb" "(S - ss) * fb + m * fb \<le> n * fb"
  proof -
    show "0 \<le> (S - ss) * fb"
      using inside fb0 by simp
    have "(S - ss) * fb + m * fb = (S - ss + m) * fb"
      by (simp add: algebra_simps)
    also have "\<dots> \<le> n * fb"
      using mn fb0 by (intro mult_right_mono) auto
    finally show "(S - ss) * fb + m * fb \<le> n * fb" .
  qed
  let ?doff = "?d * scast (bytes_per_sample p) * scast (channels p)"
  have doff: "sint ?doff = (S - ss) * fb"
    using sint_frames_to_bytes [of ?d "bytes_per_sample p" "channels p"] d dfb mfb pk len63
    by (simp add: fb_def frame_size_def p_def)
  let ?off = "start_byte ip + ?doff"
  have off: "sint ?off = sb + (S - ss) * fb"
  proof -
    have "sint ?off = sint (start_byte ip) + sint ?doff"
      using doff dfb mfb pk len63 by (intro sint_add_64) (auto simp add: sb_def)
    with doff show ?thesis
      by (simp add: sb_def)
  qed
  have within: "sint ?off + sint ?nbytes \<le> int (length (file_bytes p))"
    using off nb dfb pk by simp
  have off0: "0 \<le> sint ?off" and nb0: "0 \<le> sint ?nbytes"
    using off nb dfb mfb pk by simp_all
  have un: "uint ?nbytes = m * fb"
    using uint_eq_sint_nonneg [OF nb0] nb by simp
  then have unat: "unat ?nbytes = nat (m * fb)"
    by (simp add: unat_eq_nat_uint)
  from map_and_read [OF ready off0 nb0 within]
  obtain p' where
    e: "EnsureRangeAccessible E p ?off ?nbytes
          = Inr (p', \<lparr> p_region = mappings_made p', p_offset = sint ?off \<rparr>)"
    and r': "mapper_ready E p'"
    and keep: "file_bytes p' = file_bytes p" "channels p' = channels p"
      "bytes_per_sample p' = bytes_per_sample p"
    and rd0: "deref p' \<lparr> p_region = mappings_made p', p_offset = sint ?off \<rparr> 0
                (nat (sint ?nbytes))
              = Inr (take (nat (sint ?nbytes)) (drop (nat (sint ?off)) (file_bytes p)))"
    by blast
  \<comment> \<open>\<^verbatim>\<open>memcpy\<close>\<close>
  have sz: "to_size_t E ?nbytes = ?nbytes"
  proof (cases "size_t_bytes E = 4")
    case True
    with ready have "int (length (file_bytes p)) < 2 ^ 32"
      by (simp add: mapper_ready_def)
    with un mfb pk have "uint ?nbytes < 2 ^ 32"
      by linarith
    then have "(ucast (ucast ?nbytes :: 32 word) :: 64 word) = ?nbytes"
      by (rule ucast_64_32_64)
    with True show ?thesis
      by (simp add: to_size_t_def)
  next
    case False
    then show ?thesis
      by (simp add: to_size_t_def)
  qed
  have rd: "deref p' \<lparr> p_region = mappings_made p', p_offset = sint ?off \<rparr> 0 (unat ?nbytes)
              = Inr (take (nat (m * fb)) (drop (nat (sb + (S - ss) * fb)) (file_bytes p)))"
    using rd0 unfolding unat nb off .
  have cp: "memcpy p' (fs_dst s) (fs_buf s)
              \<lparr> p_region = mappings_made p', p_offset = sint ?off \<rparr> (to_size_t E ?nbytes)
            = Inr (take (nat (fs_buf s)) (fs_dst s)
                   @ take (nat (m * fb)) (drop (nat (sb + (S - ss) * fb)) (file_bytes p))
                   @ drop (nat (fs_buf s + m * fb)) (fs_dst s))"
    using rd room un unat mfb
    by (simp add: memcpy_def sz and_then_def nat_add_distrib)
  \<comment> \<open>the new cursors\<close>
  have st: "sint (fs_start s + ?scd) = S + m"
  proof -
    have "sint (fs_start s + ?scd) = sint (fs_start s) + sint ?scd"
      using scd m1 mn inside pk Slo
      by (intro sint_add_64) (auto simp add: S_def)
    with scd show ?thesis
      by (simp add: S_def)
  qed
  have ct: "sint (fs_count s - ?scd) = C - m"
  proof -
    have "sint (fs_count s - ?scd) = sint (fs_count s) - sint ?scd"
      using scd m1 mC Chi Clo
      by (intro sint_sub_64) (auto simp add: C_def)
    with scd show ?thesis
      by (simp add: C_def)
  qed
  show ?thesis
    using cond e cp st ct nb r' keep
    by (simp add: fill_step_def Let_def and_then_def p_def [symmetric])
qed


lemma same_audio_point_ok:
  assumes "file_bytes p' = file_bytes p" "channels p' = channels p"
    "bytes_per_sample p' = bytes_per_sample p"
  shows "point_ok p' ip = point_ok p ip" and "frame_size p' = frame_size p"
    and "pcm_stream p' ips = pcm_stream p ips"
proof -
  from assms show f: "frame_size p' = frame_size p"
    by (simp add: frame_size_def)
  from assms f show "point_ok p' ip = point_ok p ip"
    by (simp add: point_ok_def)
  from assms f have "chunk_bytes p' = chunk_bytes p"
    by (intro ext) (simp add: chunk_bytes_def)
  then show "pcm_stream p' ips = pcm_stream p ips"
    by (simp add: pcm_stream_def)
qed

lemma overwrite_twice:
  fixes dst X1 X2 :: "'a list"
  assumes "length X1 = k1" and "a + k1 + k2 \<le> length dst"
  shows "take (a + k1) (take a dst @ X1 @ drop (a + k1) dst) @ X2
           @ drop (a + k1 + k2) (take a dst @ X1 @ drop (a + k1) dst)
         = take a dst @ (X1 @ X2) @ drop (a + k1 + k2) dst"
  using assms by (simp add: add.commute add.left_commute)

lemma slice_of_chunk:
  fixes xs :: "'a list"
  assumes "d + k \<le> L"
  shows "take k (drop (sb + d) xs) = take k (drop d (take L (drop sb xs)))"
  using assms by (simp add: drop_take add.commute min_def)

lemma chunk_length:
  assumes "point_ok p ip"
  shows "length (chunk_bytes p ip) = nat (sint (num_samples ip) * frame_size p)"
proof -
  from assms have "0 \<le> sint (start_byte ip)"
    and "sint (start_byte ip) + sint (num_samples ip) * frame_size p
            \<le> int (length (file_bytes p))"
    by (simp_all add: point_ok_def)
  then show ?thesis
    by (simp add: chunk_bytes_def)
qed


lemma stream_step_inside:
  fixes chunk rest :: "'a list"
  assumes "length chunk = l" and "d + k1 \<le> l" and "k2 = 0 \<or> d + k1 = l"
  shows "take k1 (drop d chunk) @ take k2 rest = take (k1 + k2) (drop d (chunk @ rest))"
proof (cases "k2 = 0")
  case True
  with assms show ?thesis
    by simp
next
  case False
  with assms have e: "d + k1 = length chunk"
    by simp
  then have "k1 + k2 + d - length chunk = k2"
    by simp
  with e show ?thesis
    by simp
qed

text \<open>
  The loop of \<open>FillBuffer\<close> on the index points from sample \<open>s0\<close> on: it succeeds, and
  it writes at \<open>buf\<close> the frames of the stream from the requested start that exist, as
  many as requested at most, and nothing else.
\<close>

lemma FillBuffer_loop_reads:
  assumes "mapper_ready E (fs_prov s)"
    and "0 \<le> sint (bytes_per_sample (fs_prov s))" and "0 \<le> sint (channels (fs_prov s))"
    and "\<forall>ip \<in> set ips. point_ok (fs_prov s) ip"
    and "contiguous s0 ips"
    and "0 < sint (fs_count s) \<longrightarrow> sint s0 \<le> sint (fs_start s)"
    and "0 \<le> fs_buf s"
    and "fs_buf s
           + frames_copied (sint (fs_count s)) (sint (fs_start s)) (index_end s0 ips)
               * frame_size (fs_prov s)
         \<le> int (length (fs_dst s))"
  shows "\<exists>s'. FillBuffer_loop E ips s = Inr s'
           \<and> fs_dst s' =
               take (nat (fs_buf s)) (fs_dst s)
               @ take (nat (frames_copied (sint (fs_count s)) (sint (fs_start s))
                              (index_end s0 ips) * frame_size (fs_prov s)))
                   (drop (nat ((sint (fs_start s) - sint s0) * frame_size (fs_prov s)))
                      (pcm_stream (fs_prov s) ips))
               @ drop (nat (fs_buf s
                        + frames_copied (sint (fs_count s)) (sint (fs_start s))
                            (index_end s0 ips) * frame_size (fs_prov s)))
                   (fs_dst s)"
  using assms
proof (induction ips arbitrary: s s0)
  case Nil
  then have "frames_copied (sint (fs_count s)) (sint (fs_start s)) (index_end s0 []) = 0"
    by (auto simp add: frames_copied_def index_end_def)
  then show ?case
    by (simp add: pcm_stream_def)
next
  case (Cons ip ips)
  define p where "p = fs_prov s"
  define fb where "fb = frame_size (fs_prov s)"
  define C where "C = sint (fs_count s)"
  define S where "S = sint (fs_start s)"
  define ss where "ss = sint (start_sample ip)"
  define n where "n = sint (num_samples ip)"
  define sb where "sb = sint (start_byte ip)"
  define End where "End = index_end s0 (ip # ips)"
  define m where "m = frames_copied (sint (fs_count s)) (sint (fs_start s)) (index_end s0 (ip # ips))"
  define b where "b = fs_buf s"
  define dst where "dst = fs_dst s"
  define K where "K = m * fb"
  note defs = p_def fb_def C_def S_def ss_def n_def sb_def End_def m_def b_def dst_def
  have m_alt: "m = frames_copied C S End"
    by (simp only: defs)
  have b0: "0 \<le> b"
    unfolding b_def by (rule Cons.prems(7))
  have room: "b + K \<le> int (length dst)"
    unfolding defs K_def by (rule Cons.prems(8))
  have fb0: "0 \<le> fb"
    using Cons.prems(2,3) by (simp add: fb_def frame_size_def)
  have pt: "point_ok (fs_prov s) ip" and pts: "\<forall>ip \<in> set ips. point_ok (fs_prov s) ip"
    using Cons.prems(4) by simp_all
  have ss0: "start_sample ip = s0" and cont: "contiguous (s0 + num_samples ip) ips"
    using Cons.prems(5) by simp_all
  have n0: "0 \<le> n" and sb0: "0 \<le> sb"
    and inside_file: "sb + n * fb \<le> int (length (file_bytes p))"
    using pt by (simp_all add: point_ok_def defs)
  have next_start: "sint (s0 + num_samples ip) = ss + n"
    using point_end [OF pt] ss0 by (simp add: defs)
  have tail: "0 \<le> (\<Sum>ip\<leftarrow>ips. sint (num_samples ip))"
    using pts by (auto intro!: sum_list_nonneg simp add: point_ok_def)
  have End': "index_end (s0 + num_samples ip) ips = End"
    using next_start ss0 by (simp add: index_end_def defs)
  have End_ge: "ss + n \<le> End"
    using tail ss0 by (simp add: index_end_def defs)
  have clen: "length (chunk_bytes p ip) = nat (n * fb)"
    using chunk_length [OF pt] by (simp only: defs)
  have stream: "pcm_stream p (ip # ips) = chunk_bytes p ip @ pcm_stream p ips"
    by (simp add: pcm_stream_def)
  have goal: "\<exists>s'. FillBuffer_loop E (ip # ips) s = Inr s'
           \<and> fs_dst s' = take (nat b) dst
                 @ take (nat K) (drop (nat ((S - ss) * fb)) (pcm_stream p (ip # ips)))
                 @ drop (nat (b + K)) dst"
  proof (cases "0 < C")
    case False
    then have "m = 0"
      by (simp add: m_alt frames_copied_def)
    then have "K = 0"
      by (simp add: K_def)
    moreover from False have "FillBuffer_loop E (ip # ips) s = Inr s"
      by (simp add: word_sless_alt C_def)
    ultimately show ?thesis
      by (simp add: dst_def)
  next
    case pos: True
    with Cons.prems(6) ss0 have le: "ss \<le> S"
      by (simp add: defs)
    have go: "0 <s fs_count s"
      using pos by (simp add: word_sless_alt C_def)
    show ?thesis
    proof (cases "S < ss + n")
      case False
      \<comment> \<open>the index point ends before the request starts: it is skipped\<close>
      have sk: "fill_step E ip s = Inr s"
        using False by (intro fill_step_skip [OF pt]) (simp add: defs)
      have pre: "0 < sint (fs_count s) \<longrightarrow> sint (s0 + num_samples ip) \<le> sint (fs_start s)"
        using False next_start by (simp add: defs)
      have pre8: "fs_buf s
           + frames_copied (sint (fs_count s)) (sint (fs_start s))
               (index_end (s0 + num_samples ip) ips) * frame_size (fs_prov s)
         \<le> int (length (fs_dst s))"
        using Cons.prems(8) End' by (simp only: defs)
      from Cons.IH [OF Cons.prems(1,2,3) pts cont pre Cons.prems(7) pre8]
      obtain s' where
        l: "FillBuffer_loop E ips s = Inr s'"
        and d: "fs_dst s' =
               take (nat b) dst
               @ take (nat K) (drop (nat ((S - (ss + n)) * fb)) (pcm_stream p ips))
               @ drop (nat (b + K)) dst"
        unfolding End' next_start K_def defs by blast
      define D where "D = (S - (ss + n)) * fb"
      define L where "L = n * fb"
      have "(S - ss) * fb = L + D"
        by (simp add: algebra_simps D_def L_def)
      moreover have "0 \<le> D"
        using False fb0 by (simp add: D_def)
      moreover have "0 \<le> L"
        using n0 fb0 by (simp add: L_def)
      ultimately have "nat ((S - ss) * fb) = nat L + nat D"
        by (simp add: nat_add_distrib)
      then have "drop (nat ((S - ss) * fb)) (pcm_stream p (ip # ips))
                 = drop (nat D) (pcm_stream p ips)"
        using clen by (simp add: stream L_def)
      with l d sk go show ?thesis
        by (simp add: D_def)
    next
      case inside: True
      \<comment> \<open>the request starts in this index point\<close>
      define m1 where "m1 = min C (n - (S - ss))"
      define m2 where "m2 = frames_copied (C - m1) (S + m1) End"
      define K1 where "K1 = m1 * fb"
      define K2 where "K2 = m2 * fb"
      define D where "D = (S - ss) * fb"
      define L where "L = n * fb"
      have m1: "1 \<le> m1" "m1 \<le> n - (S - ss)" "m1 \<le> C"
        using inside pos by (simp_all add: m1_def)
      have m2: "0 \<le> m2"
        by (simp add: m2_def frames_copied_def)
      have split: "m = m1 + m2"
        using End_ge inside pos
        by (auto simp add: m_alt m1_def m2_def frames_copied_def min_def)
      have rest_case: "m2 = 0 \<or> m1 = n - (S - ss)"
        by (auto simp add: m1_def m2_def frames_copied_def min_def)
      have K12: "K = K1 + K2"
        by (simp add: K_def K1_def K2_def split algebra_simps)
      have k1: "0 \<le> K1" and k2: "0 \<le> K2"
        using m1 m2 fb0 by (simp_all add: K1_def K2_def)
      have D0: "0 \<le> D"
        using le fb0 by (simp add: D_def)
      have "D + K1 = (S - ss + m1) * fb"
        by (simp add: D_def K1_def algebra_simps)
      also have "\<dots> \<le> n * fb"
        using m1 fb0 by (intro mult_right_mono) auto
      finally have DK: "D + K1 \<le> L"
        by (simp add: L_def)
      have full: "K2 = 0 \<or> D + K1 = L"
      proof (cases "m2 = 0")
        case True
        then show ?thesis
          by (simp add: K2_def)
      next
        case False
        with rest_case have "S - ss + m1 = n"
          by simp
        then have "(S - ss + m1) * fb = n * fb"
          by simp
        then show ?thesis
          by (simp add: D_def K1_def L_def algebra_simps)
      qed
      have room1: "fs_buf s + min (sint (fs_count s))
                     (sint (num_samples ip) - (sint (fs_start s) - sint (start_sample ip)))
                       * frame_size (fs_prov s)
                   \<le> int (length (fs_dst s))"
      proof -
        have "b + K1 \<le> int (length dst)"
          using room K12 k2 by simp
        then show ?thesis
          by (simp only: K1_def m1_def defs)
      qed
      have le_raw: "sint (start_sample ip) \<le> sint (fs_start s)"
        using le by (simp only: defs)
      have inside_raw: "sint (fs_start s) < sint (start_sample ip) + sint (num_samples ip)"
        using inside by (simp only: defs)
      have pos_raw: "0 < sint (fs_count s)"
        using pos by (simp only: defs)
      from fill_step_copy [OF Cons.prems(1,2,3) pt le_raw inside_raw pos_raw Cons.prems(7) room1]
      obtain s1 where
        st: "fill_step E ip s = Inr s1"
        and r1: "mapper_ready E (fs_prov s1)"
        and same: "file_bytes (fs_prov s1) = file_bytes (fs_prov s)"
          "channels (fs_prov s1) = channels (fs_prov s)"
          "bytes_per_sample (fs_prov s1) = bytes_per_sample (fs_prov s)"
        and b1: "fs_buf s1 = b + K1"
        and S1: "sint (fs_start s1) = S + m1"
        and C1: "sint (fs_count s1) = C - m1"
        and d1: "fs_dst s1 = take (nat b) dst
                   @ take (nat K1) (drop (nat (sb + D)) (file_bytes p))
                   @ drop (nat (b + K1)) dst"
        unfolding K1_def m1_def D_def defs by blast
      note sa = same_audio_point_ok [OF same]
      have fb1: "frame_size (fs_prov s1) = fb"
        using sa(2) by (simp only: defs)
      have lx1: "length (take (nat K1) (drop (nat (sb + D)) (file_bytes p))) = nat K1"
        using DK inside_file sb0 k1 D0 by (simp add: L_def)
      have nb1: "nat (b + K1) = nat b + nat K1"
        and nb2: "nat (b + K1 + K2) = nat b + nat K1 + nat K2"
        and nb: "nat (b + K) = nat b + nat K1 + nat K2"
        using b0 k1 k2 K12 by (simp_all add: nat_add_distrib)
      have roomn: "nat b + nat K1 + nat K2 \<le> length dst"
        using room K12 b0 k1 k2 by simp
      have "length (fs_dst s1)
              = length (take (nat b) dst) + (nat K1 + length (drop (nat b + nat K1) dst))"
        unfolding d1 length_append lx1 nb1 by (rule refl)
      then have len1: "length (fs_dst s1) = length dst"
        using roomn by simp
      have pre1: "mapper_ready E (fs_prov s1)"
        "0 \<le> sint (bytes_per_sample (fs_prov s1))" "0 \<le> sint (channels (fs_prov s1))"
        "\<forall>ip \<in> set ips. point_ok (fs_prov s1) ip"
        using r1 same Cons.prems(2,3) pts sa(1) by simp_all
      have pre2: "0 < sint (fs_count s1) \<longrightarrow> sint (s0 + num_samples ip) \<le> sint (fs_start s1)"
        unfolding C1 S1 next_start by (simp add: m1_def min_def)
      have pre3: "0 \<le> fs_buf s1"
        using b1 b0 k1 by simp
      have pre4: "fs_buf s1
           + frames_copied (sint (fs_count s1)) (sint (fs_start s1))
               (index_end (s0 + num_samples ip) ips) * frame_size (fs_prov s1)
         \<le> int (length (fs_dst s1))"
        unfolding C1 S1 End' fb1 b1 len1 m2_def [symmetric] K2_def [symmetric]
        using room K12 by simp
      from Cons.IH [OF pre1 cont pre2 pre3 pre4]
      obtain s' where
        l: "FillBuffer_loop E ips s1 = Inr s'"
        and d: "fs_dst s' =
               take (nat (b + K1)) (fs_dst s1)
               @ take (nat K2) (drop (nat ((S + m1 - (ss + n)) * fb)) (pcm_stream p ips))
               @ drop (nat (b + K1 + K2)) (fs_dst s1)"
        unfolding C1 S1 End' fb1 b1 next_start sa(3) m2_def [symmetric] K2_def [symmetric]
          p_def [symmetric]
        by blast
      \<comment> \<open>the bytes of this index point, then those of the rest\<close>
      let ?X1 = "take (nat K1) (drop (nat (sb + D)) (file_bytes p))"
      have X1: "?X1 = take (nat K1) (drop (nat D) (chunk_bytes p ip))"
      proof -
        have "nat (sb + D) = nat sb + nat D"
          using sb0 D0 by (simp add: nat_add_distrib)
        moreover have "nat D + nat K1 \<le> nat L"
          using DK D0 k1 by simp
        ultimately show ?thesis
          using slice_of_chunk [of "nat D" "nat K1" "nat L" "nat sb" "file_bytes p"]
          by (simp add: chunk_bytes_def L_def defs)
      qed
      have X2: "take (nat K2) (drop (nat ((S + m1 - (ss + n)) * fb)) (pcm_stream p ips))
                = take (nat K2) (pcm_stream p ips)"
        using rest_case by (auto simp add: K2_def)
      have X12: "?X1 @ take (nat K2) (pcm_stream p ips)
                 = take (nat K) (drop (nat D) (pcm_stream p (ip # ips)))"
      proof -
        have "nat D + nat K1 \<le> nat L"
          using DK D0 k1 by simp
        moreover have "nat K2 = 0 \<or> nat D + nat K1 = nat L"
          using full D0 k1 by (auto simp add: nat_add_distrib [symmetric])
        moreover have "nat K = nat K1 + nat K2"
          using K12 k1 k2 by (simp add: nat_add_distrib)
        ultimately show ?thesis
          using stream_step_inside [of "chunk_bytes p ip" "nat L" "nat D" "nat K1" "nat K2"
              "pcm_stream p ips"] clen X1
          by (simp add: stream L_def)
      qed
      have "fs_dst s' = take (nat b) dst @ (?X1 @ take (nat K2) (pcm_stream p ips))
                          @ drop (nat b + nat K1 + nat K2) dst"
        unfolding d X2 d1 nb1 nb2
        by (rule overwrite_twice [OF lx1 roomn])
      then have "fs_dst s' = take (nat b) dst
               @ take (nat K) (drop (nat D) (pcm_stream p (ip # ips)))
               @ drop (nat (b + K)) dst"
        by (simp only: X12 nb)
      with l st go show ?thesis
        by (simp add: D_def)
    qed
  qed
  show ?case
    using goal ss0 unfolding K_def defs by simp
qed

lemma FillBuffer_reads:
  assumes r: "readable E p"
    and "0 \<le> sint start"
    and "frames_copied (sint count) (sint start) (sint (prov_num_samples p)) * frame_size p
           \<le> int (length dst)"
  shows "\<exists>p'. FillBuffer E p dst start count
           = Inr (p', take (nat (frames_copied (sint count) (sint start)
                                  (sint (prov_num_samples p)) * frame_size p))
                        (drop (nat (sint start * frame_size p))
                           (pcm_stream p (index_points p)))
                      @ drop (nat (frames_copied (sint count) (sint start)
                                     (sint (prov_num_samples p)) * frame_size p))
                          dst)"
proof -
  let ?s = "\<lparr> fs_prov = p, fs_dst = dst, fs_buf = 0, fs_start = start, fs_count = count \<rparr>"
  from r have N: "sint (prov_num_samples p) = index_end 0 (index_points p)"
    by (simp add: readable_def)
  have "\<exists>s'. FillBuffer_loop E (index_points p) ?s = Inr s'
           \<and> fs_dst s' =
               take (nat (fs_buf ?s)) (fs_dst ?s)
               @ take (nat (frames_copied (sint (fs_count ?s)) (sint (fs_start ?s))
                              (index_end 0 (index_points p)) * frame_size (fs_prov ?s)))
                   (drop (nat ((sint (fs_start ?s) - sint (0 :: int64)) * frame_size (fs_prov ?s)))
                      (pcm_stream (fs_prov ?s) (index_points p)))
               @ drop (nat (fs_buf ?s
                        + frames_copied (sint (fs_count ?s)) (sint (fs_start ?s))
                            (index_end 0 (index_points p)) * frame_size (fs_prov ?s)))
                   (fs_dst ?s)"
    using r assms(2,3) N
    by (intro FillBuffer_loop_reads) (simp_all add: readable_def)
  then show ?thesis
    by (auto simp add: FillBuffer_def and_then_def N)
qed

subsection \<open>Where a read takes its bytes from\<close>

lemma contiguous_prefix_sum:
  assumes "contiguous s (pre @ ip # post)" and "\<forall>q \<in> set pre. point_ok p q"
  shows "sint (start_sample ip) = sint s + (\<Sum>q\<leftarrow>pre. sint (num_samples q))"
  using assms
proof (induction pre arbitrary: s)
  case Nil
  then show ?case
    by simp
next
  case (Cons x pre)
  from Cons.prems(1) have sx: "start_sample x = s"
    and c: "contiguous (s + num_samples x) (pre @ ip # post)"
    by simp_all
  from Cons.prems(2) have ok: "point_ok p x"
    by simp
  have "sint (start_sample x + num_samples x)
          = sint (start_sample x) + sint (num_samples x)"
    by (rule point_end [OF ok])
  then have e: "sint (s + num_samples x) = sint s + sint (num_samples x)"
    by (simp add: sx)
  from Cons.IH [OF c] Cons.prems(2)
  have "sint (start_sample ip)
          = sint (s + num_samples x) + (\<Sum>q\<leftarrow>pre. sint (num_samples q))"
    by simp
  with e show ?case
    by simp
qed

lemma stream_length:
  assumes "\<forall>ip \<in> set ips. point_ok p ip" and "0 \<le> frame_size p"
  shows "int (length (pcm_stream p ips)) = (\<Sum>ip\<leftarrow>ips. sint (num_samples ip)) * frame_size p"
  using assms(1)
proof (induction ips)
  case Nil
  then show ?case
    by (simp add: pcm_stream_def)
next
  case (Cons x ips)
  then have ok: "point_ok p x" and rest: "\<forall>ip \<in> set ips. point_ok p ip"
    by simp_all
  have "0 \<le> sint (num_samples x) * frame_size p"
    using ok assms(2) by (simp add: point_ok_def)
  then have "int (length (chunk_bytes p x)) = sint (num_samples x) * frame_size p"
    by (simp add: chunk_length [OF ok])
  moreover have "pcm_stream p (x # ips) = chunk_bytes p x @ pcm_stream p ips"
    by (simp add: pcm_stream_def)
  ultimately show ?case
    using Cons.IH [OF rest] by (simp add: algebra_simps)
qed

lemma slice_of_stream:
  fixes A B R xs :: "'a list"
  assumes "length A = a" and "B = take L (drop sb xs)" and "length B = L" and "d + k \<le> L"
  shows "take k (drop (a + d) (A @ B @ R)) = take k (drop (sb + d) xs)"
    and "a + d + k \<le> length (A @ B @ R)"
proof -
  have "drop (a + d) (A @ B @ R) = drop d (B @ R)"
    using assms(1) by simp
  also have "take k \<dots> = take k (drop d B)"
    using assms(3,4) by simp
  also have "\<dots> = take k (drop (sb + d) xs)"
    unfolding assms(2) using assms(4) by (rule slice_of_chunk [symmetric])
  finally show "take k (drop (a + d) (A @ B @ R)) = take k (drop (sb + d) xs)" .
  show "a + d + k \<le> length (A @ B @ R)"
    using assms(1,3,4) by simp
qed

lemma take_of_read:
  fixes xs ys :: "'a list"
  assumes "k \<le> K" and "k \<le> length xs"
  shows "take k (take K xs @ ys) = take k xs"
  using assms by (simp add: min_def)


text \<open>
  A read that starts inside an index point takes its first frames, as many as the point
  has from there on, from the file at
  \<open>start_byte + (start - start_sample) * bytes_per_sample * channels\<close>.
\<close>

lemma FillBuffer_source_offset:
  fixes q :: provider and ip :: IndexPoint
  defines "fb \<equiv> frame_size q"
  defines "ss \<equiv> sint (start_sample ip)" and "n \<equiv> sint (num_samples ip)"
  defines "sb \<equiv> sint (start_byte ip)"
  assumes r: "readable E q" and mem: "ip \<in> set (index_points q)"
    and inside: "ss \<le> sint start" "sint start < ss + n"
    and cnt: "0 < sint count"
    and room: "frames_copied (sint count) (sint start) (sint (prov_num_samples q)) * fb
                 \<le> int (length dst)"
  shows "\<exists>q' out. FillBuffer E q dst start count = Inr (q', out)
           \<and> take (nat (min (sint count) (ss + n - sint start) * fb)) out
               = take (nat (min (sint count) (ss + n - sint start) * fb))
                   (drop (nat (sb + (sint start - ss) * fb)) (file_bytes q))"
proof -
  define S where "S = sint start"
  define C where "C = sint count"
  define N where "N = sint (prov_num_samples q)"
  define m where "m = min C (ss + n - S)"
  define K where "K = frames_copied C S N"
  from mem obtain pre post where ix: "index_points q = pre @ ip # post"
    by (auto simp add: in_set_conv_decomp)
  from r have ok: "\<forall>x \<in> set (index_points q). point_ok q x"
    and cont: "contiguous 0 (index_points q)"
    and total: "N = index_end 0 (index_points q)"
    and fmt: "0 \<le> sint (bytes_per_sample q)" "0 \<le> sint (channels q)"
    by (simp_all add: readable_def N_def)
  have fb0: "0 \<le> fb"
    using fmt by (simp add: fb_def frame_size_def)
  have okip: "point_ok q ip" and okpre: "\<forall>x \<in> set pre. point_ok q x"
    and okpost: "\<forall>x \<in> set post. point_ok q x"
    using ok ix by simp_all
  have pk: "0 \<le> n" "0 \<le> sb" "0 \<le> ss" "sb + n * fb \<le> int (length (file_bytes q))"
    using okip by (simp_all add: point_ok_def n_def sb_def ss_def fb_def)
  \<comment> \<open>where the point lies in the stream\<close>
  define P where "P = (\<Sum>x\<leftarrow>pre. sint (num_samples x))"
  define Q where "Q = (\<Sum>x\<leftarrow>post. sint (num_samples x))"
  have ssP: "ss = P"
    using contiguous_prefix_sum [of 0 pre ip post q] cont okpre
    by (simp add: ix ss_def P_def)
  have Q0: "0 \<le> Q"
    unfolding Q_def using okpost by (intro sum_list_nonneg) (auto simp add: point_ok_def)
  have NN: "N = ss + n + Q"
    by (simp add: total ix index_end_def ssP P_def Q_def n_def)
  \<comment> \<open>the frames\<close>
  have m1: "1 \<le> m" and mC: "m \<le> C" and mn: "S - ss + m \<le> n"
    using inside cnt by (simp_all add: m_def S_def C_def)
  have mK: "m \<le> K"
    using inside cnt Q0 NN
    by (simp add: m_def K_def frames_copied_def S_def C_def min_def max_def)
  \<comment> \<open>the bytes\<close>
  define A where "A = pcm_stream q pre"
  define B where "B = chunk_bytes q ip"
  define R where "R = pcm_stream q post"
  have stream: "pcm_stream q (index_points q) = A @ B @ R"
    by (simp add: ix pcm_stream_def A_def B_def R_def)
  have lenA: "length A = nat (ss * fb)"
  proof -
    have "int (length A) = P * fb"
      unfolding A_def P_def fb_def using okpre fb0 [unfolded fb_def] by (rule stream_length)
    then show ?thesis
      by (simp add: ssP)
  qed
  have lenB: "length B = nat (n * fb)"
    unfolding B_def n_def fb_def by (rule chunk_length [OF okip])
  have Bdef: "B = take (nat (n * fb)) (drop (nat sb) (file_bytes q))"
    by (simp add: B_def chunk_bytes_def n_def fb_def sb_def)
  define d where "d = nat ((S - ss) * fb)"
  define k where "k = nat (m * fb)"
  have d0: "0 \<le> (S - ss) * fb" and k0: "0 \<le> m * fb"
    using inside m1 fb0 by (simp_all add: S_def)
  have dk: "d + k \<le> nat (n * fb)"
  proof -
    have "(S - ss) * fb + m * fb = (S - ss + m) * fb"
      by (simp add: algebra_simps)
    also have "\<dots> \<le> n * fb"
      using mn fb0 by (intro mult_right_mono) auto
    finally show ?thesis
      using d0 k0 by (simp add: d_def k_def nat_add_distrib [symmetric])
  qed
  have Sfb: "nat (S * fb) = nat (ss * fb) + d"
  proof -
    have "S * fb = ss * fb + (S - ss) * fb"
      by (simp add: algebra_simps)
    moreover have "0 \<le> ss * fb"
      using pk fb0 by simp
    ultimately show ?thesis
      using d0 by (simp add: d_def nat_add_distrib)
  qed
  have sbd: "nat (sb + (S - ss) * fb) = nat sb + d"
    using pk d0 by (simp add: d_def nat_add_distrib)
  note sl = slice_of_stream [OF lenA Bdef lenB dk, of R]
  have kK: "k \<le> nat (K * fb)"
    using mK fb0 by (simp add: k_def nat_mono mult_right_mono)
  have klen: "k \<le> length (drop (nat (S * fb)) (pcm_stream q (index_points q)))"
    using sl(2) by (simp add: stream Sfb)
  \<comment> \<open>the read\<close>
  have S0: "0 \<le> sint start"
    using inside pk by simp
  from FillBuffer_reads [OF r S0, of count dst] room
  obtain q' where f: "FillBuffer E q dst start count
           = Inr (q', take (nat (K * fb)) (drop (nat (S * fb)) (pcm_stream q (index_points q)))
                      @ drop (nat (K * fb)) dst)"
    by (auto simp add: K_def C_def S_def N_def fb_def)
  have "take k (take (nat (K * fb)) (drop (nat (S * fb)) (pcm_stream q (index_points q)))
                  @ drop (nat (K * fb)) dst)
        = take k (drop (nat (S * fb)) (pcm_stream q (index_points q)))"
    using kK klen by (rule take_of_read)
  also have "\<dots> = take k (drop (nat sb + d) (file_bytes q))"
    using sl(1) by (simp add: stream Sfb)
  finally have "take k (take (nat (K * fb)) (drop (nat (S * fb)) (pcm_stream q (index_points q)))
                  @ drop (nat (K * fb)) dst)
        = take k (drop (nat (sb + (S - ss) * fb)) (file_bytes q))"
    by (simp add: sbd)
  with f show ?thesis
    unfolding k_def m_def C_def S_def by blast
qed

subsection \<open>A 16-bit stereo RIFF WAV file\<close>

text \<open>
  C1. On a build where mapping succeeds, the RIFF WAV file made of \<open>riff_pcm_header\<close>
  (16-bit PCM, 2 channels, 44100 Hz) and a data chunk of 16 payload bytes is accepted;
  the provider has \<open>bytes_per_sample = 2\<close>, \<open>channels = 2\<close>, \<open>sample_rate = 44100\<close> and
  \<open>num_samples = 4\<close>, its one index point starts at byte 44, the first byte of the
  payload, it can be read, and \<open>FillBuffer\<close> for 2 frames from frame 1 leaves bytes 4 to
  11 of the payload in an 8-byte destination. For every provider that can be read and
  every read that starts inside one of its index points, the first frames that
  \<open>FillBuffer\<close> leaves in the destination, as many as are requested and the index point
  has from there on, are the bytes of the file from
  \<open>start_byte + (start - start_sample) * bytes_per_sample * channels\<close> on.
\<close>

theorem riff_pcm_16bit_stereo:
  assumes "\<forall>off len. \<not> map_fails E off len"
  shows "(\<exists>p p'. RiffWavPCMAudioProvider E
             (riff_pcm_header @ [pa, pb, pc, pd, pe, pf, pg, ph, pi, pj, pk, pl, pm, pn, po, pq])
           = Some (Inr p)
       \<and> bytes_per_sample p = 2 \<and> channels p = 2 \<and> sample_rate p = 44100
       \<and> prov_num_samples p = 4
       \<and> index_points p = [\<lparr> start_byte = 44, start_sample = 0, num_samples = 4 \<rparr>]
       \<and> readable E p
       \<and> FillBuffer E p [da, db, dc, dd, de, df, dg, dh] 1 2
           = Inr (p', [pe, pf, pg, ph, pi, pj, pk, pl]))
     \<and> (readable E q \<and> ip \<in> set (index_points q)
         \<and> sint (start_sample ip) \<le> sint start
         \<and> sint start < sint (start_sample ip) + sint (num_samples ip)
         \<and> 0 < sint count
         \<and> frames_copied (sint count) (sint start) (sint (prov_num_samples q))
              * frame_size q \<le> int (length dst) \<longrightarrow>
         (\<exists>q' out. FillBuffer E q dst start count = Inr (q', out)
            \<and> take (nat (min (sint count)
                             (sint (start_sample ip) + sint (num_samples ip) - sint start)
                           * (sint (bytes_per_sample q) * sint (channels q)))) out
                = take (nat (min (sint count)
                               (sint (start_sample ip) + sint (num_samples ip) - sint start)
                             * (sint (bytes_per_sample q) * sint (channels q))))
                    (drop (nat (sint (start_byte ip)
                                + (sint start - sint (start_sample ip))
                                  * (sint (bytes_per_sample q) * sint (channels q))))
                       (file_bytes q))))"
proof (intro conjI impI)
  show "\<exists>p p'. RiffWavPCMAudioProvider E
             (riff_pcm_header @ [pa, pb, pc, pd, pe, pf, pg, ph, pi, pj, pk, pl, pm, pn, po, pq])
           = Some (Inr p)
       \<and> bytes_per_sample p = 2 \<and> channels p = 2 \<and> sample_rate p = 44100
       \<and> prov_num_samples p = 4
       \<and> index_points p = [\<lparr> start_byte = 44, start_sample = 0, num_samples = 4 \<rparr>]
       \<and> readable E p
       \<and> FillBuffer E p [da, db, dc, dd, de, df, dg, dh] 1 2
           = Inr (p', [pe, pf, pg, ph, pi, pj, pk, pl])"
  proof (cases "size_t_bytes E = 4")
    case True
    with assms show ?thesis
      by (simp add: riff_pcm_header_def pcm_defs riff_defs fill_defs readable_def
          mapper_ready_def point_ok_def index_end_def frame_size_def)
  next
    case False
    with assms show ?thesis
      by (simp add: riff_pcm_header_def pcm_defs riff_defs fill_defs readable_def
          mapper_ready_def point_ok_def index_end_def frame_size_def)
  qed
next
  assume h: "readable E q \<and> ip \<in> set (index_points q)
         \<and> sint (start_sample ip) \<le> sint start
         \<and> sint start < sint (start_sample ip) + sint (num_samples ip)
         \<and> 0 < sint count
         \<and> frames_copied (sint count) (sint start) (sint (prov_num_samples q))
              * frame_size q \<le> int (length dst)"
  then have "\<exists>q' out. FillBuffer E q dst start count = Inr (q', out)
           \<and> take (nat (min (sint count)
                           (sint (start_sample ip) + sint (num_samples ip) - sint start)
                         * frame_size q)) out
               = take (nat (min (sint count)
                             (sint (start_sample ip) + sint (num_samples ip) - sint start)
                           * frame_size q))
                   (drop (nat (sint (start_byte ip)
                               + (sint start - sint (start_sample ip)) * frame_size q))
                      (file_bytes q))"
    by (intro FillBuffer_source_offset) simp_all
  then show "\<exists>q' out. FillBuffer E q dst start count = Inr (q', out)
            \<and> take (nat (min (sint count)
                             (sint (start_sample ip) + sint (num_samples ip) - sint start)
                           * (sint (bytes_per_sample q) * sint (channels q)))) out
                = take (nat (min (sint count)
                               (sint (start_sample ip) + sint (num_samples ip) - sint start)
                             * (sint (bytes_per_sample q) * sint (channels q))))
                    (drop (nat (sint (start_byte ip)
                                + (sint start - sint (start_sample ip))
                                  * (sint (bytes_per_sample q) * sint (channels q))))
                       (file_bytes q))"
    by (simp only: frame_size_def)
qed

theorem riff_pcm_16bit_stereo_witness:
  "(\<exists>p p'. RiffWavPCMAudioProvider env64
             (riff_pcm_header @ [0, 1, 2, 3, 4, 5, 6, 7, 8, 9, 10, 11, 12, 13, 14, 15])
           = Some (Inr p)
       \<and> bytes_per_sample p = 2 \<and> channels p = 2 \<and> sample_rate p = 44100
       \<and> prov_num_samples p = 4
       \<and> index_points p = [\<lparr> start_byte = 44, start_sample = 0, num_samples = 4 \<rparr>]
       \<and> readable env64 p
       \<and> FillBuffer env64 p [0, 0, 0, 0, 0, 0, 0, 0] 1 2
           = Inr (p', [4, 5, 6, 7, 8, 9, 10, 11]))
   \<and> (\<exists>q' out. FillBuffer env64 mono24
                   [0xEE, 0xEE, 0xEE, 0xEE, 0xEE, 0xEE, 0xEE, 0xEE] 4 2 = Inr (q', out)
         \<and> take 6 out = [17, 18, 19, 20, 21, 22])"
proof -
  let ?ip = "\<lparr> start_byte = 14, start_sample = 3, num_samples = 4 \<rparr> :: IndexPoint"
  let ?dst = "[0xEE, 0xEE, 0xEE, 0xEE, 0xEE, 0xEE, 0xEE, 0xEE] :: byte list"
  have h: "\<forall>off len. \<not> map_fails env64 off len"
    by (simp add: env64_def)
  have r: "readable env64 mono24"
    by (simp add: readable_def mapper_ready_def point_ok_def index_end_def frame_size_def
        mono24_def env64_def)
  have g: "readable env64 mono24 \<and> ?ip \<in> set (index_points mono24)
         \<and> sint (start_sample ?ip) \<le> sint (4 :: int64)
         \<and> sint (4 :: int64) < sint (start_sample ?ip) + sint (num_samples ?ip)
         \<and> 0 < sint (2 :: int64)
         \<and> frames_copied (sint (2 :: int64)) (sint (4 :: int64))
              (sint (prov_num_samples mono24))
              * frame_size mono24 \<le> int (length ?dst)"
    using r by (simp add: mono24_def frames_copied_def frame_size_def)
  note t1 = riff_pcm_16bit_stereo [OF h, THEN conjunct1,
      of 0 1 2 3 4 5 6 7 8 9 10 11 12 13 14 15 0 0 0 0 0 0 0 0]
  note t2 = riff_pcm_16bit_stereo [OF h, THEN conjunct2, rule_format, OF g]
  have n: "nat (min (sint (2 :: int64))
                  (sint (start_sample ?ip) + sint (num_samples ?ip) - sint (4 :: int64))
                * (sint (bytes_per_sample mono24) * sint (channels mono24))) = 6"
    by (simp add: mono24_def)
  have b: "take 6 (drop (nat (sint (start_byte ?ip)
                               + (sint (4 :: int64) - sint (start_sample ?ip))
                                 * (sint (bytes_per_sample mono24) * sint (channels mono24))))
                     (file_bytes mono24))
           = [17, 18, 19, 20, 21, 22]"
    by (simp add: mono24_def)
  from t2 have "\<exists>q' out. FillBuffer env64 mono24 ?dst 4 2 = Inr (q', out)
         \<and> take 6 out = [17, 18, 19, 20, 21, 22]"
    unfolding n b .
  with t1 show ?thesis
    by (intro conjI)
qed

subsection \<open>The windowed mapper\<close>















subsection \<open>A read past the end of the stream\<close>

text \<open>
  C9. The loop of \<open>FillBuffer\<close> ends when the index is exhausted or when \<open>count\<close> is
  not positive. On a provider that can be read, a request that starts inside the stream
  and asks for more frames than are left, with a destination that has room for the frames
  that are left, raises no error; it copies the \<open>num_samples - start\<close> frames that exist
  (the stream from byte \<open>start * frame_size\<close> on), which is no more than the \<open>count\<close>
  frames requested, to the beginning of the destination, and the rest of the destination is
  what it was: nothing is padded.
\<close>

theorem FillBuffer_past_the_end:
  assumes "readable E p"
    and "0 \<le> sint start" and "sint start \<le> sint (prov_num_samples p)"
    and "sint (prov_num_samples p) - sint start < sint count"
    and "(sint (prov_num_samples p) - sint start) * frame_size p \<le> int (length dst)"
  shows "(\<exists>p'. FillBuffer E p dst start count
            = Inr (p', take (nat ((sint (prov_num_samples p) - sint start) * frame_size p))
                         (drop (nat (sint start * frame_size p))
                            (pcm_stream p (index_points p)))
                       @ drop (nat ((sint (prov_num_samples p) - sint start) * frame_size p))
                           dst))
         \<and> (sint (prov_num_samples p) - sint start) * frame_size p
               \<le> sint count * frame_size p
         \<and> FillBuffer_loop E [] s = Inr s
         \<and> (\<not> 0 <s fs_count s \<longrightarrow> FillBuffer_loop E ips s = Inr s)"
proof -
  have f: "frames_copied (sint count) (sint start) (sint (prov_num_samples p))
             = sint (prov_num_samples p) - sint start"
    using assms(3,4) by (simp add: frames_copied_def)
  have "0 \<le> frame_size p"
    using assms(1) by (simp add: readable_def frame_size_def)
  then have le: "(sint (prov_num_samples p) - sint start) * frame_size p
                   \<le> sint count * frame_size p"
    using assms(4) by (intro mult_right_mono) simp_all
  have stop: "\<not> 0 <s fs_count s \<longrightarrow> FillBuffer_loop E ips s = Inr s"
    by (cases ips) simp_all
  from FillBuffer_reads [OF assms(1,2), of count dst] assms(5) f le stop show ?thesis
    by simp
qed

theorem FillBuffer_past_the_end_witness:
  "RiffWavPCMAudioProvider env64 riff_two_chunks = Some (Inr two_chunks_provider)
   \<and> FillBuffer env64 two_chunks_provider
        [0xEE, 0xEE, 0xEE, 0xEE, 0xEE, 0xEE, 0xEE, 0xEE, 0xEE, 0xEE, 0xEE, 0xEE, 0xEE, 0xEE,
         0xEE, 0xEE] 1 4
       = Inr (two_chunks_provider,
              [5, 6, 7, 8, 9, 10, 11, 12, 13, 14, 15, 16, 0xEE, 0xEE, 0xEE, 0xEE])"
proof -
  let ?dst = "[0xEE, 0xEE, 0xEE, 0xEE, 0xEE, 0xEE, 0xEE, 0xEE, 0xEE, 0xEE, 0xEE, 0xEE, 0xEE,
               0xEE, 0xEE, 0xEE] :: byte list"
  have p: "RiffWavPCMAudioProvider env64 riff_two_chunks = Some (Inr two_chunks_provider)"
    by (simp add: riff_two_chunks_def two_chunks_provider_def env64_def pcm_defs riff_defs)
  have fs: "frame_size two_chunks_provider = 4"
    by (simp add: frame_size_def two_chunks_provider_def)
  have r: "readable env64 two_chunks_provider"
    by (simp add: readable_def mapper_ready_def point_ok_def index_end_def frame_size_def
        two_chunks_provider_def env64_def riff_two_chunks_def bytes_of_def)
  have h: "0 \<le> sint (1 :: int64)"
    "sint (1 :: int64) \<le> sint (prov_num_samples two_chunks_provider)"
    "sint (prov_num_samples two_chunks_provider) - sint (1 :: int64) < sint (4 :: int64)"
    "(sint (prov_num_samples two_chunks_provider) - sint (1 :: int64))
       * frame_size two_chunks_provider \<le> int (length ?dst)"
    by (simp_all add: fs) (simp_all add: two_chunks_provider_def)
  from FillBuffer_past_the_end [OF r h, THEN conjunct1]
  obtain p' where f: "FillBuffer env64 two_chunks_provider ?dst 1 4
       = Inr (p', take (nat ((sint (prov_num_samples two_chunks_provider) - sint (1 :: int64))
                               * frame_size two_chunks_provider))
                    (drop (nat (sint (1 :: int64) * frame_size two_chunks_provider))
                       (pcm_stream two_chunks_provider (index_points two_chunks_provider)))
                  @ drop (nat ((sint (prov_num_samples two_chunks_provider) - sint (1 :: int64))
                                 * frame_size two_chunks_provider)) ?dst)"
    by blast
  have bytes: "take (nat ((sint (prov_num_samples two_chunks_provider) - sint (1 :: int64))
                               * frame_size two_chunks_provider))
                    (drop (nat (sint (1 :: int64) * frame_size two_chunks_provider))
                       (pcm_stream two_chunks_provider (index_points two_chunks_provider)))
                  @ drop (nat ((sint (prov_num_samples two_chunks_provider) - sint (1 :: int64))
                                 * frame_size two_chunks_provider)) ?dst
               = [5, 6, 7, 8, 9, 10, 11, 12, 13, 14, 15, 16, 0xEE, 0xEE, 0xEE, 0xEE]"
    unfolding fs
    by (simp add: pcm_stream_def chunk_bytes_def frame_size_def two_chunks_provider_def
        riff_two_chunks_def bytes_of_def)
  have "fst (projr (FillBuffer env64 two_chunks_provider ?dst 1 4)) = two_chunks_provider"
    by (simp add: two_chunks_provider_def riff_two_chunks_def env64_def pcm_defs fill_defs)
  with f have same: "p' = two_chunks_provider"
    by simp
  from p f bytes same show ?thesis
    by simp
qed


end
